theory Spec2Isabelle
  imports Main "HOL-Library.Word" "HOL-Library.Char_ord" "HOL-Library.List_Lexorder"
begin

section \<open>Handles, containers and the control-flow graph\<close>

text \<open>
  Every LLVM object the kernel builder touches (basic blocks, instructions, arguments,
  globals, functions) is a pointer in the source. A pointer is modelled by a natural
  number, the handle; the order of the handles is the order of the addresses, which is
  the order in which a \<^verbatim>\<open>std::set<T*>\<close> or a \<^verbatim>\<open>std::map<T*, _>\<close> is iterated.
\<close>

type_synonym val = nat
type_synonym block = nat
type_synonym func = nat

text \<open>\<^verbatim>\<open>std::set::insert\<close> on a set kept as the list of its elements in iteration order.\<close>

fun set_insert :: "'a::linorder \<Rightarrow> 'a list \<Rightarrow> 'a list" where
  "set_insert x [] = [x]"
| "set_insert x (y # ys) =
     (if x = y then y # ys else if x < y then x # y # ys else y # set_insert x ys)"

text \<open>\<^verbatim>\<open>m[k] = v\<close> and \<^verbatim>\<open>m.erase(k)\<close> on a \<^verbatim>\<open>std::map\<close> kept as the list of its
  pairs in key order.\<close>

fun map_put :: "'k::linorder \<Rightarrow> 'v \<Rightarrow> ('k \<times> 'v) list \<Rightarrow> ('k \<times> 'v) list" where
  "map_put k v [] = [(k, v)]"
| "map_put k v ((k', v') # ps) =
     (if k = k' then (k, v) # ps
      else if k < k' then (k, v) # (k', v') # ps
      else (k', v') # map_put k v ps)"

definition map_erase :: "'k \<Rightarrow> ('k \<times> 'v) list \<Rightarrow> ('k \<times> 'v) list" where
  "map_erase k ps = filter (\<lambda>p. fst p \<noteq> k) ps"

text \<open>
  The control-flow graph: each block with the successor list of its terminator, in
  successor order. A block that is not listed has a terminator with no successor.
\<close>

type_synonym cfg = "(block \<times> block list) list"

definition successors :: "cfg \<Rightarrow> block \<Rightarrow> block list" where
  "successors g b = (case map_of g b of None \<Rightarrow> [] | Some ss \<Rightarrow> ss)"

text \<open>
  What the region analysis reads of the input module besides the graph: whether the
  terminator of a block is a return, the function a block belongs to, and, for a
  function, the parent blocks of the instructions that use it (its use list).
\<close>

record ir =
  graph :: cfg
  is_return :: "block \<Rightarrow> bool"
  parent :: "block \<Rightarrow> func"
  user_blocks :: "func \<Rightarrow> block list"

text \<open>
  A phase either completes or stops: by throwing a \<^verbatim>\<open>TikException\<close> with its
  message, or by an operation whose behaviour C++ leaves undefined (an operand index out
  of range, a null block dereferenced).
\<close>

datatype failure = TikException string | UndefinedBehaviour

fun fold_err :: "('a \<Rightarrow> 's \<Rightarrow> failure + 's) \<Rightarrow> 'a list \<Rightarrow> 's \<Rightarrow> failure + 's" where
  "fold_err f [] s = Inr s"
| "fold_err f (x # xs) s = (case f x s of Inl e \<Rightarrow> Inl e | Inr s' \<Rightarrow> fold_err f xs s')"

section \<open>The kernel object\<close>

text \<open>
  The entry block of a synthesized selector function (\<^verbatim>\<open>MemoryRead\<close>,
  \<^verbatim>\<open>MemoryWrite\<close>): the instructions in the order the builder appended them. An
  operand is the result of an earlier instruction of the block (by position), the
  function's one i64 argument, or an i64 constant.
\<close>

datatype operand = Reg nat | ArgOp | ConstInt "64 word"

datatype minst =
    Load val
  | PtrToInt operand
  | ICmpEQ operand operand
  | Select operand operand operand
  | Ret operand

text \<open>
  A synthesized selector function: its handle and its entry block. The synthesized
  kernel function: its handle, its return type, its parameter types, and the handles of
  its arguments in order (\<^verbatim>\<open>arg_begin() + i\<close> is \<open>args ! i\<close>).
\<close>

record memfunc =
  mf_handle :: func
  entry :: "minst list"

datatype ty = IntegerTy nat | PointerTy ty | OtherTy nat

record function_decl =
  fn_handle :: func
  returnType :: ty
  paramTypes :: "ty list"
  args :: "val list"

text \<open>
  The members of \<^verbatim>\<open>class Kernel\<close> that the modelled phases read or write. Sets that
  the modelled code only tests, inserts into and erases from are HOL sets; sets and maps
  it iterates are lists in iteration order. A null pointer is \<open>None\<close>.
\<close>

record kernel =
  KernelFunction :: "function_decl option"
  Entrances :: "block list"
  ExitTarget :: "(nat \<times> block) list"
  ExitMap :: "(block \<times> nat) list"
  Conditional :: "block set"
  Body :: "block set"
  Termination :: "block set"
  ExternalValues :: "val list"
  VMap :: "val \<rightharpoonup> val"
  ArgumentMap :: "val \<rightharpoonup> val"
  GlobalMap :: "(val \<times> val) list"
  LoadMap :: "(nat \<times> val) list"
  StoreMap :: "(nat \<times> val) list"
  MemoryRead :: "memfunc option"
  MemoryWrite :: "memfunc option"
  Valid :: bool

text \<open>
  Modelled from the spec: the in-class member initialisers of \<^verbatim>\<open>Kernel.h\<close>, which
  is not among the sources. The object the constructor body starts from has empty
  containers and null pointers, and \<^verbatim>\<open>Valid\<close> is false until the constructor sets
  it at the end of a successful build.
\<close>

definition new_kernel :: kernel where
  "new_kernel = \<lparr>KernelFunction = None, Entrances = [], ExitTarget = [], ExitMap = [],
     Conditional = {}, Body = {}, Termination = {}, ExternalValues = [], VMap = Map.empty,
     ArgumentMap = Map.empty, GlobalMap = [], LoadMap = [], StoreMap = [],
     MemoryRead = None, MemoryWrite = None, Valid = False\<rparr>"

section \<open>Exit analysis: \<^verbatim>\<open>Kernel::GetExits\<close>\<close>

text \<open>
  The loop state is the local counter \<^verbatim>\<open>exitId\<close>, the local set
  \<^verbatim>\<open>coveredExits\<close> and the kernel. \<open>exit_target\<close> is the body shared by the two inner
  loops: a target outside the block set that is not yet covered gets the next id, and the
  block that reached it is entered into \<^verbatim>\<open>ExitMap\<close> under the same guard.
\<close>

type_synonym exit_state = "nat \<times> block set \<times> kernel"

definition exit_target :: "block list \<Rightarrow> block \<Rightarrow> block \<Rightarrow> exit_state \<Rightarrow> exit_state" where
  "exit_target blocks blk tgt st =
     (case st of (exitId, coveredExits, k) \<Rightarrow>
        if tgt \<notin> set blocks then
          if tgt \<notin> coveredExits then
            (exitId + 1, insert tgt coveredExits,
             k\<lparr>ExitTarget := map_put exitId tgt (ExitTarget k),
               ExitMap := map_put blk exitId (ExitMap k)\<rparr>)
          else st
        else st)"

definition exit_block :: "ir \<Rightarrow> block list \<Rightarrow> block \<Rightarrow> exit_state \<Rightarrow> exit_state" where
  "exit_block m blocks blk st =
     (let st1 = fold (exit_target blocks blk) (successors (graph m) blk) st
      in if is_return m blk
         then fold (exit_target blocks blk) (user_blocks m (parent m blk)) st1
         else st1)"

definition GetExits :: "ir \<Rightarrow> block list \<Rightarrow> kernel \<Rightarrow> failure + kernel" where
  "GetExits m blocks k =
     (case fold (exit_block m blocks) blocks (0, {}, k) of
        (exitId, coveredExits, k') \<Rightarrow>
          if exitId = 0 then Inl (TikException ''Tik Error: tik found no kernel exits'')
          else Inr k')"

text \<open>Two blocks of the set, 1 and 2, both branching to block 3 outside the set.\<close>

definition shared_exit_ir :: ir where
  "shared_exit_ir = \<lparr>graph = [(1, [3]), (2, [3])], is_return = (\<lambda>b. False),
     parent = (\<lambda>b. 0), user_blocks = (\<lambda>f. [])\<rparr>"

section \<open>Conditional classification and the partition: \<^verbatim>\<open>Kernel::GetConditional\<close>\<close>

text \<open>
  The search from one successor of a candidate. The state is the queue
  \<^verbatim>\<open>toProcess\<close>, the set \<^verbatim>\<open>checked\<close> and the flags \<^verbatim>\<open>recurses\<close> and
  \<^verbatim>\<open>exit\<close>. \<open>visit_successor\<close> is the body of the loop over the successors of the
  block being processed.
\<close>

type_synonym search = "block list \<times> block set \<times> bool \<times> bool"

definition visit_successor :: "block list \<Rightarrow> block \<Rightarrow> block \<Rightarrow> search \<Rightarrow> search" where
  "visit_successor blocks cond succ st =
     (case st of (toProcess, checked, recurses, exit) \<Rightarrow>
        (let recurses' = (recurses \<or> succ = cond);
             exit' = (exit \<or> succ \<notin> set blocks)
         in if succ \<notin> checked \<and> succ \<in> set blocks
            then (toProcess @ [succ], insert succ checked, recurses', exit')
            else (toProcess, checked, recurses', exit')))"

function explore :: "cfg \<Rightarrow> block list \<Rightarrow> block \<Rightarrow> search \<Rightarrow> block set \<times> bool \<times> bool" where
  "explore g blocks cond ([], checked, recurses, exit) = (checked, recurses, exit)"
| "explore g blocks cond (processing # rest, checked, recurses, exit) =
     explore g blocks cond
       (fold (visit_successor blocks cond) (successors g processing)
          (rest, checked, recurses, exit \<or> successors g processing = []))"
  by pat_completeness auto
termination
proof (relation "measures
    [\<lambda>(g, blocks, cond, toProcess, checked, recurses, exit). card (set blocks - checked),
     \<lambda>(g, blocks, cond, toProcess, checked, recurses, exit). length toProcess]")
  show "wf (measures
    [\<lambda>(g, blocks, cond, toProcess, checked, recurses, exit). card (set blocks - checked),
     \<lambda>(g :: cfg, blocks :: block list, cond :: block, toProcess :: block list,
        checked :: block set, recurses :: bool, exit :: bool). length toProcess])"
    by simp
next
  fix g :: cfg and blocks :: "block list" and cond processing :: block
    and rest :: "block list" and checked :: "block set" and recurses exit :: bool
  have step: "card (set blocks - c') < card (set blocks - c)
      \<or> (card (set blocks - c') = card (set blocks - c) \<and> length q' = length q)"
    if "fold (visit_successor blocks cond) ss (q, c, r, e) = (q', c', r', e')"
    for ss q c r e q' c' r' e'
    using that
  proof (induction ss arbitrary: q c r e)
    case Nil
    then show ?case by simp
  next
    case (Cons s ss)
    show ?case
    proof (cases "s \<notin> c \<and> s \<in> set blocks")
      case True
      then have "visit_successor blocks cond s (q, c, r, e)
          = (q @ [s], insert s c, r \<or> s = cond, e \<or> s \<notin> set blocks)"
        by (simp add: visit_successor_def)
      with Cons.prems have
        f: "fold (visit_successor blocks cond) ss
              (q @ [s], insert s c, r \<or> s = cond, e \<or> s \<notin> set blocks) = (q', c', r', e')"
        by simp
      have "card (set blocks - insert s c) < card (set blocks - c)"
        using True by (intro psubset_card_mono) auto
      with Cons.IH [OF f] show ?thesis by auto
    next
      case False
      then have "visit_successor blocks cond s (q, c, r, e)
          = (q, c, r \<or> s = cond, e \<or> s \<notin> set blocks)"
        by (auto simp: visit_successor_def)
      with Cons.prems have
        "fold (visit_successor blocks cond) ss
              (q, c, r \<or> s = cond, e \<or> s \<notin> set blocks) = (q', c', r', e')"
        by simp
      from Cons.IH [OF this] show ?thesis .
    qed
  qed
  obtain q' c' r' e' where
    f: "fold (visit_successor blocks cond) (successors g processing)
          (rest, checked, recurses, exit \<or> successors g processing = []) = (q', c', r', e')"
    using prod_cases4 by blast
  from step [OF f] show
    "((g, blocks, cond,
       fold (visit_successor blocks cond) (successors g processing)
         (rest, checked, recurses, exit \<or> successors g processing = [])),
      (g, blocks, cond, processing # rest, checked, recurses, exit))
     \<in> measures
        [\<lambda>(g, blocks, cond, toProcess, checked, recurses, exit). card (set blocks - checked),
         \<lambda>(g, blocks, cond, toProcess, checked, recurses, exit). length toProcess]"
    unfolding f by auto
qed

text \<open>The flags of one successor \<open>suc\<close> of the candidate \<open>cond\<close>.\<close>

definition classify_successor :: "cfg \<Rightarrow> block list \<Rightarrow> block \<Rightarrow> block \<Rightarrow> bool \<times> bool" where
  "classify_successor g blocks cond suc =
     (case explore g blocks cond ([suc], {suc, cond}, False, False) of
        (checked, recurses, exit) \<Rightarrow> (recurses, exit))"

text \<open>
  The body of the loop over the successors of a candidate. The state is
  \<^verbatim>\<open>exRecurses\<close>, \<^verbatim>\<open>exExit\<close>, \<^verbatim>\<open>exitPaths\<close> and \<^verbatim>\<open>recursePaths\<close>; a successor
  with both flags is skipped by the \<^verbatim>\<open>continue\<close>.
\<close>

type_synonym paths = "bool \<times> bool \<times> block list \<times> block list"

definition classify_step :: "cfg \<Rightarrow> block list \<Rightarrow> block \<Rightarrow> block \<Rightarrow> paths \<Rightarrow> paths" where
  "classify_step g blocks cond suc st =
     (case st of (exRecurses, exExit, exitPaths, recursePaths) \<Rightarrow>
        (case classify_successor g blocks cond suc of
           (recurses, exit) \<Rightarrow>
             if recurses \<and> exit then st
             else (exRecurses \<or> recurses, exExit \<or> exit,
                   (if exit then set_insert suc exitPaths else exitPaths),
                   (if recurses then set_insert suc recursePaths else recursePaths))))"

definition classify_condition :: "cfg \<Rightarrow> block list \<Rightarrow> block \<Rightarrow> paths" where
  "classify_condition g blocks cond =
     fold (classify_step g blocks cond) (successors g cond) (False, False, [], [])"

text \<open>The set \<^verbatim>\<open>conditions\<close>: the blocks whose terminator has more than one
  successor.\<close>

definition conditions :: "cfg \<Rightarrow> block list \<Rightarrow> block list" where
  "conditions g blocks =
     fold (\<lambda>blk acc. if length (successors g blk) > 1 then set_insert blk acc else acc) blocks []"

text \<open>The loop over the candidates, giving \<^verbatim>\<open>validConditions\<close>, \<^verbatim>\<open>exitDict\<close> and
  \<^verbatim>\<open>recurseDict\<close>.\<close>

type_synonym dicts = "block list \<times> (block \<times> block list) list \<times> (block \<times> block list) list"

definition record_condition :: "cfg \<Rightarrow> block list \<Rightarrow> block \<Rightarrow> dicts \<Rightarrow> dicts" where
  "record_condition g blocks cond st =
     (case st of (validConditions, exitDict, recurseDict) \<Rightarrow>
        (case classify_condition g blocks cond of
           (exRecurses, exExit, exitPaths, recursePaths) \<Rightarrow>
             if exExit \<and> exRecurses
             then (set_insert cond validConditions, map_put cond exitPaths exitDict,
                   map_put cond recursePaths recurseDict)
             else st))"

definition valid_conditions :: "cfg \<Rightarrow> block list \<Rightarrow> dicts" where
  "valid_conditions g blocks =
     fold (record_condition g blocks) (conditions g blocks) ([], [], [])"

text \<open>
  The body walk of one valid condition. The state is the queue \<^verbatim>\<open>processing\<close>, the
  set \<^verbatim>\<open>visited\<close> and the member \<^verbatim>\<open>Body\<close> (\<open>marked\<close>). A block is marked visited when it is
  taken from the queue, not when it is pushed; membership in the block set is tested
  only where the block is inserted into \<^verbatim>\<open>Body\<close>. The final \<^verbatim>\<open>visited\<close> is
  returned with \<^verbatim>\<open>Body\<close>.
\<close>

function body_walk ::
  "cfg \<Rightarrow> block list \<Rightarrow> block list \<Rightarrow> block list \<Rightarrow> block set \<Rightarrow> block set
     \<Rightarrow> block set \<times> block set" where
  "body_walk g blocks validConditions [] visited marked = (visited, marked)"
| "body_walk g blocks validConditions (a # rest) visited marked =
     body_walk g blocks validConditions
       (rest @ filter (\<lambda>suc. suc \<notin> set validConditions \<and> suc \<notin> insert a visited)
                 (successors g a))
       (insert a visited)
       (if a \<notin> marked then (if a \<in> set blocks then insert a marked else marked)
        else marked)"
  by pat_completeness auto
termination
proof (relation "measures
    [\<lambda>(g, blocks, validConditions, processing, visited, marked).
       card ((set (concat (map snd g)) \<union> set processing) - visited),
     \<lambda>(g, blocks, validConditions, processing, visited, marked).
       length (filter (\<lambda>b. b \<in> visited) processing)]")
  show "wf (measures
    [\<lambda>(g, blocks, validConditions, processing, visited, marked).
       card ((set (concat (map snd g)) \<union> set processing) - visited),
     \<lambda>(g :: cfg, blocks :: block list, validConditions :: block list, processing,
        visited, marked :: block set).
       length (filter (\<lambda>b. b \<in> visited) processing)])"
    by simp
next
  fix g :: cfg and blocks validConditions rest :: "block list" and a :: block
    and visited marked :: "block set"
  let ?U = "set (concat (map snd g))"
  let ?new = "filter (\<lambda>suc. suc \<notin> set validConditions \<and> suc \<notin> insert a visited)
                 (successors g a)"
  have succ: "set (successors g a) \<subseteq> ?U"
  proof
    fix x
    assume "x \<in> set (successors g a)"
    then obtain ss where m: "map_of g a = Some ss" and x: "x \<in> set ss"
      by (cases "map_of g a") (auto simp: successors_def)
    from m have "(a, ss) \<in> set g" by (rule map_of_SomeD)
    with x show "x \<in> ?U" by force
  qed
  have sub: "(?U \<union> set (rest @ ?new)) - insert a visited \<subseteq> (?U \<union> set (a # rest)) - visited"
    using succ by auto
  have fin: "finite ((?U \<union> set (a # rest)) - visited)" by simp
  show "((g, blocks, validConditions, rest @ ?new, insert a visited,
          (if a \<notin> marked then (if a \<in> set blocks then insert a marked else marked)
           else marked)),
         (g, blocks, validConditions, a # rest, visited, marked))
        \<in> measures
           [\<lambda>(g, blocks, validConditions, processing, visited, marked).
              card ((set (concat (map snd g)) \<union> set processing) - visited),
            \<lambda>(g, blocks, validConditions, processing, visited, marked).
              length (filter (\<lambda>b. b \<in> visited) processing)]"
  proof (cases "a \<in> visited")
    case True
    then have eq: "insert a visited = visited" by auto
    have le: "card ((?U \<union> set (rest @ ?new)) - visited) \<le> card ((?U \<union> set (a # rest)) - visited)"
      using sub fin unfolding eq by (rule card_mono [rotated])
    have "filter (\<lambda>b. b \<in> visited) ?new = []" by (auto simp: filter_empty_conv)
    then have "length (filter (\<lambda>b. b \<in> visited) (rest @ ?new))
        < length (filter (\<lambda>b. b \<in> visited) (a # rest))"
      using True by simp
    with le show ?thesis unfolding eq by (auto simp: le_less)
  next
    case False
    have "(?U \<union> set (rest @ ?new)) - insert a visited \<subset> (?U \<union> set (a # rest)) - visited"
      using sub False by auto
    from psubset_card_mono [OF fin this] show ?thesis by simp
  qed
qed

text \<open>The body of the loop over the valid conditions.\<close>

definition walk_condition ::
  "cfg \<Rightarrow> block list \<Rightarrow> dicts \<Rightarrow> block \<Rightarrow> kernel \<Rightarrow> kernel" where
  "walk_condition g blocks d b k =
     (case d of (validConditions, exitDict, recurseDict) \<Rightarrow>
        (let recPaths = (case map_of recurseDict b of None \<Rightarrow> [] | Some ps \<Rightarrow> ps)
         in case body_walk g blocks validConditions recPaths
                   (set recPaths \<union> set validConditions) (Body k) of
              (visited, Body') \<Rightarrow>
                k\<lparr>Conditional := insert b (Conditional k), Body := Body'\<rparr>))"

text \<open>\<^verbatim>\<open>GetConditional\<close>: every block not in \<^verbatim>\<open>Body\<close> after the walks goes to
  \<^verbatim>\<open>Termination\<close>.\<close>

definition GetConditional :: "cfg \<Rightarrow> block list \<Rightarrow> kernel \<Rightarrow> kernel" where
  "GetConditional g blocks k =
     (let d = valid_conditions g blocks;
          k1 = fold (walk_condition g blocks d) (fst d) k
      in k1\<lparr>Termination :=
              fold (\<lambda>blk T. if blk \<notin> Body k1 then insert blk T else T) blocks (Termination k1)\<rparr>)"

text \<open>
  A candidate, block 1, ending in a switch with three successors: block 2 branches back
  to 1, block 3 has no successor, and block 4 branches back to 1 and to block 9 outside
  the set {1, 2, 3, 4}.
\<close>

definition switch_cfg :: cfg where
  "switch_cfg = [(1, [2, 3, 4]), (2, [1]), (4, [1, 9])]"



text \<open>
  A path from a seed \<open>s\<close> along edges whose destination is in the block set and is not
  a valid condition.
\<close>

inductive inner_path :: "cfg \<Rightarrow> block list \<Rightarrow> block list \<Rightarrow> block \<Rightarrow> block \<Rightarrow> bool"
  for g :: cfg and blocks :: "block list" and validConditions :: "block list" and s :: block where
  start: "inner_path g blocks validConditions s s"
| step: "inner_path g blocks validConditions s a \<Longrightarrow> t \<in> set (successors g a) \<Longrightarrow>
         t \<in> set blocks \<Longrightarrow> t \<notin> set validConditions \<Longrightarrow>
         inner_path g blocks validConditions s t"


section \<open>Cloning the blocks: \<^verbatim>\<open>Kernel::BuildKernel\<close>\<close>

text \<open>
  \<^verbatim>\<open>GetBlockID\<close> and the process-wide \<^verbatim>\<open>KernelMap\<close> from block ids to the kernels
  already built.
\<close>

record build_env =
  BlockID :: "block \<Rightarrow> int"
  KernelMap :: "int \<rightharpoonup> kernel"

text \<open>
  The loop state: the local set \<^verbatim>\<open>handeledExits\<close>, the next unused block handle
  (what \<^verbatim>\<open>BasicBlock::Create\<close> and \<^verbatim>\<open>CloneBasicBlock\<close> return) and the kernel. The
  instructions written into the new blocks (the call, the switch and its cases, the
  branch to Exit, the phi repair of a clone) are not part of the state; the maps and the
  partition sets are.
\<close>

type_synonym build_state = "block set \<times> block \<times> kernel"

text \<open>The body of the loop over \<^verbatim>\<open>nestedKernel->ExitTarget\<close>.\<close>

definition nested_exit ::
  "block list \<Rightarrow> kernel \<Rightarrow> nat \<times> block \<Rightarrow> build_state \<Rightarrow> failure + build_state" where
  "nested_exit blocks nestedKernel pair st =
     (case st of (handeledExits, nxt, k) \<Rightarrow>
        if snd pair \<in> set blocks then Inr st
        else if snd pair \<notin> handeledExits then
          (let nExits = map fst (filter (\<lambda>e. snd e = fst pair) (ExitMap nestedKernel))
           in if length nExits \<noteq> 1
              then Inl (TikException ''Expected exactly one exit fron nested kernel'')
              else
                (let tar = hd nExits;
                     newBlock = nxt;
                     index = (case map_of (ExitMap k) tar of None \<Rightarrow> 0 | Some i \<Rightarrow> i)
                 in Inr (insert (snd pair) handeledExits, nxt + 1,
                      k\<lparr>ExitMap := map_put newBlock index (map_erase tar (ExitMap k))\<rparr>)))
        else Inr st)"

text \<open>
  The body of the loop over \<^verbatim>\<open>nestedKernel->Entrances\<close>: the intermediate block is
  created, the exits are handled, \<^verbatim>\<open>VMap[block]\<close> is set, and the partition is
  updated by an insert followed by an erase of the same intermediate block.
\<close>

definition nested_entrance ::
  "block list \<Rightarrow> kernel \<Rightarrow> block \<Rightarrow> block \<Rightarrow> build_state \<Rightarrow> failure + build_state" where
  "nested_entrance blocks nestedKernel blk ent st =
     (case st of (handeledExits, nxt, k) \<Rightarrow>
        (let intermediateBlock = nxt
         in case fold_err (nested_exit blocks nestedKernel) (ExitTarget nestedKernel)
                  (handeledExits, nxt + 1, k) of
              Inl e \<Rightarrow> Inl e
            | Inr (handeledExits', nxt', k') \<Rightarrow>
                (let k1 = k'\<lparr>VMap := (VMap k')(blk \<mapsto> intermediateBlock)\<rparr>
                 in if blk \<in> Body k1
                    then Inr (handeledExits', nxt',
                           k1\<lparr>Body := insert intermediateBlock (Body k1) - {intermediateBlock}\<rparr>)
                    else if blk \<in> Termination k1
                    then Inr (handeledExits', nxt',
                           k1\<lparr>Termination :=
                                insert intermediateBlock (Termination k1) - {intermediateBlock}\<rparr>)
                    else Inl (TikException ''Tik Error: Block not assigned to Body or Terminus''))))"

text \<open>The branch for a block of no nested kernel: the block is cloned and its clone
  takes its place in the partition.\<close>

definition clone_block :: "block \<Rightarrow> build_state \<Rightarrow> failure + build_state" where
  "clone_block blk st =
     (case st of (handeledExits, nxt, k) \<Rightarrow>
        (let cb = nxt;
             k1 = k\<lparr>VMap := (VMap k)(blk \<mapsto> cb)\<rparr>;
             k2 = (if blk \<in> Conditional k1
                   then k1\<lparr>Conditional := insert cb (Conditional k1 - {blk})\<rparr> else k1)
         in if blk \<in> Body k2
            then Inr (handeledExits, nxt + 1, k2\<lparr>Body := insert cb (Body k2 - {blk})\<rparr>)
            else if blk \<in> Termination k2
            then Inr (handeledExits, nxt + 1,
                   k2\<lparr>Termination := insert cb (Termination k2 - {blk})\<rparr>)
            else Inl (TikException ''Tik Error: block not in Body or Termination'')))"

definition build_block ::
  "build_env \<Rightarrow> block list \<Rightarrow> block \<Rightarrow> build_state \<Rightarrow> failure + build_state" where
  "build_block env blocks blk st =
     (case KernelMap env (BlockID env blk) of
        Some nestedKernel \<Rightarrow>
          if blk \<in> set (Entrances nestedKernel)
          then fold_err (nested_entrance blocks nestedKernel blk) (Entrances nestedKernel) st
          else Inr st
      | None \<Rightarrow> clone_block blk st)"

definition BuildKernel ::
  "build_env \<Rightarrow> block list \<Rightarrow> block \<Rightarrow> kernel \<Rightarrow> failure + block \<times> kernel" where
  "BuildKernel env blocks nxt k =
     (case fold_err (build_block env blocks) blocks ({}, nxt, k) of
        Inl e \<Rightarrow> Inl e
      | Inr (handeledExits, nxt', k') \<Rightarrow> Inr (nxt', k'))"

text \<open>
  A parent kernel over the blocks 10 and 20 whose block 10 is the one block, and the
  entrance, of an already built nested kernel that exits to block 20. Block 10 is in
  Body, block 20 in Termination; new blocks get the handles 100, 101, ...
\<close>

definition child_kernel :: kernel where
  "child_kernel = new_kernel\<lparr>Entrances := [10], ExitTarget := [(0, 20)], ExitMap := [(10, 0)]\<rparr>"

definition nest_env :: build_env where
  "nest_env = \<lparr>BlockID = (\<lambda>b. int b), KernelMap = [10 \<mapsto> child_kernel]\<rparr>"

definition parent_kernel :: kernel where
  "parent_kernel = new_kernel\<lparr>Entrances := [10], ExitTarget := [(0, 30)], ExitMap := [(20, 0)],
     Body := {10}, Termination := {20}\<rparr>"

section \<open>Inlining: \<^verbatim>\<open>Kernel::InlineFunctions\<close>\<close>

text \<open>
  A call instruction: its parent block, the called function (none when the call is
  indirect or the callee is null), its operands in order (the actual arguments come
  first), and whether it lives in \<^verbatim>\<open>TikModule\<close>. A user of a function is a call, a
  store, or anything else.
\<close>

record callinst =
  call_parent :: block
  isIndirectCall :: bool
  getCalledFunction :: "func option"
  call_operands :: "val list"
  in_TikModule :: bool

datatype user = CallUser callinst | StoreUser | OtherUser

text \<open>What the inliner reads of a function (its formal arguments, whether it has no
  body, its use list) and of a block (whether its terminator is a \<^verbatim>\<open>BranchInst\<close>).\<close>

record inline_env =
  formals :: "func \<Rightarrow> val list"
  empty_body :: "func \<Rightarrow> bool"
  users :: "func \<Rightarrow> user list"
  ends_in_branch :: "block \<Rightarrow> bool"

text \<open>
  \<^verbatim>\<open>InlineStruct\<close>. A phi node is kept as the list of its incoming (value,
  predecessor) pairs in the order of the \<^verbatim>\<open>addIncoming\<close> calls; \<open>branchPhi\<close> has
  constants as values. Its declaration, \<^verbatim>\<open>InlineStruct.h\<close>, is not among the
  sources: a struct that was not assigned has a null \<^verbatim>\<open>CalledFunction\<close>, and its
  counter \<^verbatim>\<open>phiIndex\<close> is taken to start at 0.
\<close>

record InlineStruct =
  CalledFunction :: func
  entranceBlock :: block
  branchPhi :: "(nat \<times> block) list"
  ArgNodes :: "(val \<times> block) list list"

text \<open>The loop over \<^verbatim>\<open>calledFunc->users()\<close> filling \<^verbatim>\<open>funcUses\<close> and
  \<^verbatim>\<open>callUses\<close>.\<close>

definition collect_use ::
  "user \<Rightarrow> block list \<times> callinst list \<Rightarrow> failure + block list \<times> callinst list" where
  "collect_use u acc =
     (case acc of (funcUses, callUses) \<Rightarrow>
        (case u of
           CallUser callUse \<Rightarrow>
             if in_TikModule callUse
             then Inr (funcUses @ [call_parent callUse], callUses @ [callUse])
             else Inr acc
         | StoreUser \<Rightarrow> Inr acc
         | OtherUser \<Rightarrow> Inl (TikException ''Tik Error: Only expected callInst'')))"

text \<open>\<^verbatim>\<open>ci->getOperand(argIndex)\<close>; an index past the operands is undefined.\<close>

definition getOperand :: "callinst \<Rightarrow> nat \<Rightarrow> failure + val" where
  "getOperand ci i =
     (if i < length (call_operands ci) then Inr (call_operands ci ! i) else Inl UndefinedBehaviour)"

text \<open>
  The phi of the formal argument number \<open>argIndex\<close>: the loop over \<^verbatim>\<open>funcUses\<close>
  reads the operand of \<open>ci\<close>, the call instruction being inlined, for every predecessor.
\<close>

fun arg_phi :: "callinst \<Rightarrow> nat \<Rightarrow> block list \<Rightarrow> failure + (val \<times> block) list" where
  "arg_phi ci argIndex [] = Inr []"
| "arg_phi ci argIndex (pre # pres) =
     (case getOperand ci argIndex of
        Inl e \<Rightarrow> Inl e
      | Inr passedValue \<Rightarrow>
          (case arg_phi ci argIndex pres of
             Inl e \<Rightarrow> Inl e
           | Inr rest \<Rightarrow> Inr ((passedValue, pre) # rest)))"

fun arg_phis :: "callinst \<Rightarrow> block list \<Rightarrow> nat list \<Rightarrow> failure + (val \<times> block) list list" where
  "arg_phis ci funcUses [] = Inr []"
| "arg_phis ci funcUses (argIndex # rest) =
     (case arg_phi ci argIndex funcUses of
        Inl e \<Rightarrow> Inl e
      | Inr phi \<Rightarrow>
          (case arg_phis ci funcUses rest of
             Inl e \<Rightarrow> Inl e
           | Inr phis \<Rightarrow> Inr (phi # phis)))"

text \<open>
  The branch for a callee not inlined yet: the entrance block with \<open>branchPhi\<close>, which
  numbers the call sites from \<^verbatim>\<open>phiIndex\<close>, and with one phi per formal argument;
  then the loop that adds the cases of the return dispatch, which throws at a call site
  whose block does not end in a branch. The entries \<^verbatim>\<open>VMap[arg]\<close> for the phis, the
  clones of the returns, the return phi and the switch are not part of the result.
\<close>

definition new_inline :: "inline_env \<Rightarrow> block \<Rightarrow> callinst \<Rightarrow> func \<Rightarrow> failure + InlineStruct" where
  "new_inline env entrance ci calledFunc =
     (case fold_err collect_use (users env calledFunc) ([], []) of
        Inl e \<Rightarrow> Inl e
      | Inr (funcUses, callUses) \<Rightarrow>
          (case arg_phis ci funcUses [0 ..< length (formals env calledFunc)] of
             Inl e \<Rightarrow> Inl e
           | Inr phis \<Rightarrow>
               if list_all (ends_in_branch env) funcUses
               then Inr \<lparr>CalledFunction = calledFunc, entranceBlock = entrance,
                         branchPhi = zip [0 ..< length funcUses] funcUses, ArgNodes = phis\<rparr>
               else Inl (TikException ''Unimplemented terminator'')))"

text \<open>
  The redirection of the call block: the \<^verbatim>\<open>cast<BranchInst>\<close> of its terminator is
  undefined for another terminator.
\<close>

definition redirect ::
  "inline_env \<Rightarrow> callinst \<Rightarrow> block \<Rightarrow> (block \<times> block) list \<Rightarrow> failure + (block \<times> block) list" where
  "redirect env ci entrance redirected =
     (if ends_in_branch env (call_parent ci)
      then Inr (redirected @ [(call_parent ci, entrance)])
      else Inl UndefinedBehaviour)"

text \<open>
  The loop over \<^verbatim>\<open>toInline\<close>. The state is the next unused block handle, the list
  \<^verbatim>\<open>InlinedFunctions\<close>, the kernel, and the redirected terminators (call block,
  new successor 0). A new struct takes two blocks, the entrance block and the return
  block, both inserted into Body.
\<close>

type_synonym inline_state = "block \<times> InlineStruct list \<times> kernel \<times> (block \<times> block) list"

definition inline_call :: "inline_env \<Rightarrow> callinst \<Rightarrow> inline_state \<Rightarrow> failure + inline_state" where
  "inline_call env ci st =
     (case st of (nxt, InlinedFunctions, k, redirected) \<Rightarrow>
        if isIndirectCall ci then Inl (TikException ''Tik Error: Indirect calls aren't supported'')
        else
          (case getCalledFunction ci of
             None \<Rightarrow> Inl (TikException ''Tik Error: Call inst was null'')
           | Some calledFunc \<Rightarrow>
               if empty_body env calledFunc then Inr st
               else
                 (case find (\<lambda>inl. CalledFunction inl = calledFunc) InlinedFunctions of
                    None \<Rightarrow>
                      (case new_inline env nxt ci calledFunc of
                         Inl e \<Rightarrow> Inl e
                       | Inr currentStruct \<Rightarrow>
                           (case redirect env ci (entranceBlock currentStruct) redirected of
                              Inl e \<Rightarrow> Inl e
                            | Inr redirected' \<Rightarrow>
                                Inr (nxt + 2, InlinedFunctions @ [currentStruct],
                                     k\<lparr>Body := insert (nxt + 1) (insert nxt (Body k))\<rparr>,
                                     redirected')))
                  | Some currentStruct \<Rightarrow>
                      (case redirect env ci (entranceBlock currentStruct) redirected of
                         Inl e \<Rightarrow> Inl e
                       | Inr redirected' \<Rightarrow> Inr (nxt, InlinedFunctions, k, redirected')))))"

definition InlineFunctions ::
  "inline_env \<Rightarrow> callinst list \<Rightarrow> block \<Rightarrow> kernel \<Rightarrow> failure + inline_state" where
  "InlineFunctions env toInline nxt k = fold_err (inline_call env) toInline (nxt, [], k, [])"

text \<open>
  A callee, function 7, with one formal argument (handle 70) and two call sites in the
  kernel function: in block 10 with the actual argument 100, in block 20 with the actual
  argument 200.
\<close>

definition site1 :: callinst where
  "site1 = \<lparr>call_parent = 10, isIndirectCall = False, getCalledFunction = Some 7,
     call_operands = [100, 7], in_TikModule = True\<rparr>"

definition site2 :: callinst where
  "site2 = \<lparr>call_parent = 20, isIndirectCall = False, getCalledFunction = Some 7,
     call_operands = [200, 7], in_TikModule = True\<rparr>"

definition two_sites :: inline_env where
  "two_sites = \<lparr>formals = (\<lambda>f. if f = 7 then [70] else []), empty_body = (\<lambda>f. False),
     users = (\<lambda>f. if f = 7 then [CallUser site1, CallUser site2] else []),
     ends_in_branch = (\<lambda>b. True)\<rparr>"

section \<open>External values and the signature: \<^verbatim>\<open>Kernel::GetExternalValues\<close> and the
  constructor\<close>











section \<open>The memory selectors: \<^verbatim>\<open>Kernel::GetMemoryFunctions\<close>\<close>

text \<open>
  An instruction of the kernel function, as far as this phase looks at it: a load with
  its pointer operand, a store with its value and pointer operands, or anything else.
  The kernel function is the list of its blocks.
\<close>

datatype kinst = LoadInst val | StoreInst val val | OtherInst

fun load_pointer :: "kinst \<Rightarrow> val list \<Rightarrow> val list" where
  "load_pointer (LoadInst p) acc = set_insert p acc"
| "load_pointer _ acc = acc"

fun store_pointer :: "kinst \<Rightarrow> val list \<Rightarrow> val list" where
  "store_pointer (StoreInst v p) acc = set_insert p acc"
| "store_pointer _ acc = acc"

text \<open>The sets \<^verbatim>\<open>loadValues\<close> and \<^verbatim>\<open>storeValues\<close>, in iteration order.\<close>

definition loadValues :: "kinst list list \<Rightarrow> val list" where
  "loadValues kf = fold load_pointer (concat kf) []"

definition storeValues :: "kinst list list \<Rightarrow> val list" where
  "storeValues kf = fold store_pointer (concat kf) []"

text \<open>
  What both selector loops append for one pointer whose global is \<open>g\<close>: the load of the
  global, its conversion to i64, and, unless this is the first pointer, the comparison of
  the argument with the index constant and the select over the prior value. The state is
  the counter \<^verbatim>\<open>i\<close>, the block so far and \<^verbatim>\<open>priorValue\<close> (none for null).
\<close>

type_synonym selector = "nat \<times> minst list \<times> operand option"

definition emit_select :: "val \<Rightarrow> selector \<Rightarrow> selector" where
  "emit_select g sel =
     (case sel of (i, body, priorValue) \<Rightarrow>
        (let b = Reg (length body);
             body1 = body @ [Load g];
             converted = Reg (length body1);
             body2 = body1 @ [PtrToInt b];
             indexConstant = ConstInt (of_nat i)
         in case priorValue of
              None \<Rightarrow> (i + 1, body2, Some converted)
            | Some prior \<Rightarrow>
                (let cmpInst = Reg (length body2);
                     body3 = body2 @ [ICmpEQ ArgOp indexConstant];
                     sInst = Reg (length body3);
                     body4 = body3 @ [Select cmpInst converted prior]
                 in (i + 1, body4, Some sInst))))"

text \<open>
  The state of the two loops: the selector under construction, the local map from a
  pointer to its index constant (\<^verbatim>\<open>loadMap\<close>, \<^verbatim>\<open>storeMap\<close>), the next unused handle
  for a new global variable, and the kernel.
\<close>

type_synonym mem_state = "selector \<times> (val \<times> 64 word) list \<times> val \<times> kernel"

text \<open>The global of a pointer: the one \<^verbatim>\<open>GlobalMap\<close> has, or a new one that is
  entered into it.\<close>

definition promote :: "val \<Rightarrow> val \<Rightarrow> kernel \<Rightarrow> val \<times> val \<times> kernel" where
  "promote v nxt k =
     (case map_of (GlobalMap k) v of
        None \<Rightarrow> (nxt, nxt + 1, k\<lparr>GlobalMap := map_put v nxt (GlobalMap k)\<rparr>)
      | Some g \<Rightarrow> (g, nxt, k))"

definition read_step :: "val \<Rightarrow> mem_state \<Rightarrow> mem_state" where
  "read_step lVal st =
     (case st of (sel, loadMap, nxt, k) \<Rightarrow>
        (case promote lVal nxt k of
           (g, nxt', k1) \<Rightarrow>
             (emit_select g sel,
              map_put lVal (of_nat (fst sel)) loadMap,
              nxt',
              k1\<lparr>VMap := (VMap k1)(lVal \<mapsto> g), LoadMap := map_put (fst sel) g (LoadMap k1)\<rparr>)))"

definition write_step :: "val \<Rightarrow> mem_state \<Rightarrow> mem_state" where
  "write_step sVal st =
     (case st of (sel, storeMap, nxt, k) \<Rightarrow>
        (case promote sVal nxt k of
           (g, nxt', k1) \<Rightarrow>
             (emit_select g sel,
              map_put sVal (of_nat (fst sel)) storeMap,
              nxt',
              k1\<lparr>StoreMap := map_put (fst sel) g (StoreMap k1)\<rparr>)))"

text \<open>The return that closes a selector block, with the warning logged for an empty
  one.\<close>

definition close_selector :: "string \<Rightarrow> selector \<Rightarrow> string list \<times> minst list" where
  "close_selector warning sel =
     (case sel of (i, body, priorValue) \<Rightarrow>
        (case priorValue of
           None \<Rightarrow> ([warning], body @ [Ret (ConstInt 0)])
         | Some prior \<Rightarrow> ([], body @ [Ret prior])))"

text \<open>
  The last loop rewrites every load and store of the kernel function into a call of the
  selector with the index constant of its pointer operand, and throws when the local map
  has none. It writes only into the kernel function; the model keeps its lookups. (When
  the loop replaces a load that is itself a key of a map it moves the entry to the new
  load, so the pointer operand of every load and store it meets later is still a key.)
\<close>

definition rewrite_inst ::
  "(val \<times> 64 word) list \<Rightarrow> (val \<times> 64 word) list \<Rightarrow> kinst \<Rightarrow> unit \<Rightarrow> failure + unit" where
  "rewrite_inst loadMap storeMap inst u =
     (case inst of
        LoadInst p \<Rightarrow>
          (case map_of loadMap p of
             None \<Rightarrow> Inl (TikException ''Tik Error: Missing address for load'')
           | Some readAddr \<Rightarrow> Inr ())
      | StoreInst v p \<Rightarrow>
          (case map_of storeMap p of
             None \<Rightarrow> Inl (TikException ''Tik Error: Missing address for store'')
           | Some writeAddr \<Rightarrow> Inr ())
      | OtherInst \<Rightarrow> Inr ())"

text \<open>
  The phase. The two functions are created first and take the handles \<open>nxt\<close> and
  \<open>nxt + 1\<close>; each has the one block \<^verbatim>\<open>entry\<close>. The result: the warnings logged, the
  next unused handle and the kernel.
\<close>

definition GetMemoryFunctions ::
  "kinst list list \<Rightarrow> val \<Rightarrow> kernel \<Rightarrow> failure + string list \<times> val \<times> kernel" where
  "GetMemoryFunctions kf nxt k =
     (case fold read_step (loadValues kf) ((0, [], None), [], nxt + 2, k) of
        (rsel, loadMap, nxt1, k1) \<Rightarrow>
          (case close_selector ''Empty kernel read encountered'' rsel of
             (warn1, loadBlock) \<Rightarrow>
               (case fold write_step (storeValues kf) ((0, [], None), [], nxt1, k1) of
                  (wsel, storeMap, nxt2, k2) \<Rightarrow>
                    (case close_selector ''Empty kernel write encountered'' wsel of
                       (warn2, storeBlock) \<Rightarrow>
                         (case fold_err (rewrite_inst loadMap storeMap) (concat kf) () of
                            Inl e \<Rightarrow> Inl e
                          | Inr u \<Rightarrow>
                              Inr (warn1 @ warn2, nxt2,
                                   k2\<lparr>MemoryRead :=
                                        Some \<lparr>mf_handle = nxt, entry = loadBlock\<rparr>,
                                      MemoryWrite :=
                                        Some \<lparr>mf_handle = nxt + 1, entry = storeBlock\<rparr>\<rparr>))))))"

text \<open>
  Running a selector block on an argument. \<open>mem g\<close> is the pointer the global \<open>g\<close> holds,
  as the 64-bit integer that \<^verbatim>\<open>ptrtoint\<close> makes of it. A register holds a pointer, an
  i64 or an i1; an ill-typed operand, a register not yet written or a block without a
  return gives no result.
\<close>

datatype rval = PtrVal "64 word" | IntVal "64 word" | BoolVal bool

fun operand_value :: "64 word \<Rightarrow> rval list \<Rightarrow> operand \<Rightarrow> rval option" where
  "operand_value arg regs (Reg n) = (if n < length regs then Some (regs ! n) else None)"
| "operand_value arg regs ArgOp = Some (IntVal arg)"
| "operand_value arg regs (ConstInt c) = Some (IntVal c)"

fun exec_inst :: "(val \<Rightarrow> 64 word) \<Rightarrow> 64 word \<Rightarrow> rval list \<Rightarrow> minst \<Rightarrow> rval option" where
  "exec_inst mem arg regs (Load g) = Some (PtrVal (mem g))"
| "exec_inst mem arg regs (PtrToInt a) =
     (case operand_value arg regs a of Some (PtrVal p) \<Rightarrow> Some (IntVal p) | _ \<Rightarrow> None)"
| "exec_inst mem arg regs (ICmpEQ a b) =
     (case (operand_value arg regs a, operand_value arg regs b) of
        (Some (IntVal x), Some (IntVal y)) \<Rightarrow> Some (BoolVal (x = y))
      | _ \<Rightarrow> None)"
| "exec_inst mem arg regs (Select c a b) =
     (case (operand_value arg regs c, operand_value arg regs a, operand_value arg regs b) of
        (Some (BoolVal t), Some x, Some y) \<Rightarrow> Some (if t then x else y)
      | _ \<Rightarrow> None)"
| "exec_inst mem arg regs (Ret a) = None"

fun exec_block :: "(val \<Rightarrow> 64 word) \<Rightarrow> 64 word \<Rightarrow> rval list \<Rightarrow> minst list \<Rightarrow> 64 word option" where
  "exec_block mem arg regs [] = None"
| "exec_block mem arg regs (Ret a # rest) =
     (case operand_value arg regs a of Some (IntVal v) \<Rightarrow> Some v | _ \<Rightarrow> None)"
| "exec_block mem arg regs (inst # rest) =
     (case exec_inst mem arg regs inst of
        None \<Rightarrow> None
      | Some v \<Rightarrow> exec_block mem arg (regs @ [v]) rest)"

text \<open>
  The register file after a run of instructions with no return, and the invariant of the
  selector loops used in the proofs below: the block begins with the load and
  conversion of the global \<open>g0\<close>, runs without error, and \<^verbatim>\<open>priorValue\<close> is a
  register that holds the converted pointer of \<open>g0\<close> unless the argument is one of the
  indices from 1 on compared so far.
\<close>

fun exec_regs :: "(val \<Rightarrow> 64 word) \<Rightarrow> 64 word \<Rightarrow> rval list \<Rightarrow> minst list \<Rightarrow> rval list option" where
  "exec_regs mem arg regs [] = Some regs"
| "exec_regs mem arg regs (inst # rest) =
     (case exec_inst mem arg regs inst of
        None \<Rightarrow> None
      | Some v \<Rightarrow> exec_regs mem arg (regs @ [v]) rest)"

definition sel_inv :: "(val \<Rightarrow> 64 word) \<Rightarrow> 64 word \<Rightarrow> val \<Rightarrow> selector \<Rightarrow> bool" where
  "sel_inv mem arg g0 sel =
     (case sel of (i, body, priorValue) \<Rightarrow>
        1 \<le> i \<and> take 2 body = [Load g0, PtrToInt (Reg 0)] \<and>
        (\<exists>regs p v. exec_regs mem arg [] body = Some regs \<and> length regs = length body
           \<and> priorValue = Some (Reg p) \<and> p < length regs \<and> regs ! p = IntVal v
           \<and> ((\<forall>j. 1 \<le> j \<and> j < i \<longrightarrow> arg \<noteq> of_nat j) \<longrightarrow> v = mem g0)))"

text \<open>A kernel function with loads of the pointers 5 and 3 and stores to the
  pointers 6 and 8.\<close>

definition sample_kf :: "kinst list list" where
  "sample_kf = [[LoadInst 5, StoreInst 1 6, LoadInst 3], [LoadInst 5, StoreInst 2 8, OtherInst]]"

section \<open>The constructor: \<^verbatim>\<open>Kernel::Kernel\<close>\<close>

text \<open>
  The process-wide state of a run: the set \<^verbatim>\<open>reservedNames\<close>, the counter
  \<^verbatim>\<open>KernelUID\<close>, the functions and globals attached to \<^verbatim>\<open>TikModule\<close>, and the
  messages logged with \<^verbatim>\<open>spdlog::error\<close>.
\<close>

record global_state =
  reservedNames :: "string set"
  KernelUID :: nat
  TikModule :: "val set"
  errors :: "string list"

text \<open>\<^verbatim>\<open>std::to_string\<close> of a non-negative int.\<close>

fun to_string :: "nat \<Rightarrow> string" where
  "to_string n =
     (if n < 10 then [char_of (48 + n)]
      else to_string (n div 10) @ [char_of (48 + n mod 10)])"

declare to_string.simps [simp del]

text \<open>
  The name of the kernel: a fresh \<^verbatim>\<open>Kernel_<uid>\<close> for the empty name (the counter
  is incremented), the name with a \<^verbatim>\<open>K\<close> in front when it starts with a digit, the
  name itself otherwise.
\<close>

definition kernel_name :: "string \<Rightarrow> global_state \<Rightarrow> string \<times> global_state" where
  "kernel_name name gs =
     (case name of
        [] \<Rightarrow> (''Kernel_'' @ to_string (KernelUID gs), gs\<lparr>KernelUID := KernelUID gs + 1\<rparr>)
      | c # cs \<Rightarrow>
          if (48::nat) \<le> of_char c \<and> of_char c \<le> (57::nat) then (''K'' @ name, gs)
          else (name, gs))"

text \<open>\<^verbatim>\<open>Kernel::Cleanup\<close>: the kernel function, the two selectors and the globals of
  \<^verbatim>\<open>GlobalMap\<close> are removed from their parent module; a null pointer is skipped.\<close>

definition Cleanup :: "kernel \<Rightarrow> global_state \<Rightarrow> global_state" where
  "Cleanup k gs =
     gs\<lparr>TikModule := TikModule gs
          - set_option (map_option fn_handle (KernelFunction k))
          - set_option (map_option mf_handle (MemoryRead k))
          - set_option (map_option mf_handle (MemoryWrite k))
          - snd ` set (GlobalMap k)\<rparr>"

text \<open>
  The guarded section of the constructor (the recursion check and the phases from
  \<^verbatim>\<open>SplitBlocks\<close> to \<^verbatim>\<open>ApplyMetadata\<close>) is a parameter: from the name, the new
  object and the process-wide state it gives the message of the \<^verbatim>\<open>TikException\<close> it
  threw, if any, with the object and the process-wide state at that point. No phase
  assigns \<^verbatim>\<open>Valid\<close>; the constructor does, after the last phase.
\<close>

type_synonym phases = "string \<Rightarrow> kernel \<Rightarrow> global_state \<Rightarrow> string option \<times> kernel \<times> global_state"

text \<open>How a constructor call ends: an exception leaves it, or it returns the object.\<close>

datatype construction = Escaped string global_state | Constructed kernel global_state

text \<open>
  \<^verbatim>\<open>Kernel::Kernel\<close>. The uniqueness check of the name and its throw stand before the
  \<^verbatim>\<open>try\<close>; the \<^verbatim>\<open>catch\<close> logs the message and runs \<^verbatim>\<open>Cleanup\<close>. The second
  \<^verbatim>\<open>try\<close> of the source has an empty body.
\<close>

definition Kernel_ctor :: "phases \<Rightarrow> string \<Rightarrow> global_state \<Rightarrow> construction" where
  "Kernel_ctor guarded name gs =
     (case kernel_name name gs of
        (Name, gs1) \<Rightarrow>
          if Name \<in> reservedNames gs1
          then Escaped ''Kernel Error: Kernel names must be unique!'' gs1
          else
            (case guarded Name new_kernel (gs1\<lparr>reservedNames := insert Name (reservedNames gs1)\<rparr>) of
               (None, k, gs2) \<Rightarrow> Constructed (k\<lparr>Valid := True\<rparr>) gs2
             | (Some what, k, gs2) \<Rightarrow>
                 Constructed (k\<lparr>Valid := Valid new_kernel\<rparr>)
                   (Cleanup k (gs2\<lparr>errors := errors gs2 @ [what]\<rparr>))))"

text \<open>A guarded section that creates the kernel function 7 and then throws, and a run
  in which the name A is already reserved.\<close>

definition failing_phases :: phases where
  "failing_phases Name k gs =
     (Some ''Tik Error: tik found no kernel exits'',
      k\<lparr>KernelFunction := Some \<lparr>fn_handle = 7, returnType = IntegerTy 8,
           paramTypes = [IntegerTy 8], args = [8]\<rparr>\<rparr>,
      gs\<lparr>TikModule := insert 7 (TikModule gs)\<rparr>)"

definition run_with_A :: global_state where
  "run_with_A = \<lparr>reservedNames = {''A''}, KernelUID = 0, TikModule = {1}, errors = []\<rparr>"

section \<open>The kernel hash utility: \<^verbatim>\<open>main\<close> of \<^verbatim>\<open>KernelHasher.cpp\<close>\<close>

text \<open>
  The module is the list of its functions, each the list of its blocks, in iteration
  order. \<^verbatim>\<open>blockMap\<close> gets the blocks under the keys 0, 1, ... of the counter
  \<^verbatim>\<open>UID\<close>, one per block in that order.
\<close>

definition blockMap :: "block list list \<Rightarrow> (int \<times> block) list" where
  "blockMap M = zip (map int [0 ..< length (concat M)]) (concat M)"

text \<open>
  \<^verbatim>\<open>std::sort(first, last)\<close> on the positions from \<open>first\<close> up to, not including,
  \<open>lst\<close> of a vector.
\<close>

definition std_sort :: "nat \<Rightarrow> nat \<Rightarrow> 'a::linorder list \<Rightarrow> 'a list" where
  "std_sort first lst xs =
     take first xs @ sort (take (lst - first) (drop first xs)) @ drop lst xs"

text \<open>
  The loop over the sorted ids of one kernel. The text of a block is made by LLVM's
  printer after the loop has renamed the operands and instructions of the block, and the
  names are cleared afterwards, so the text depends on the state of the module's names:
  the printer is a parameter \<open>pr\<close> that takes the state and the block and gives the
  string \<^verbatim>\<open>blockStr\<close> and the new state. An id that is not a key of \<^verbatim>\<open>blockMap\<close>
  gives a null block, whose use is undefined.
\<close>

fun block_strings ::
  "('st \<Rightarrow> block \<Rightarrow> string \<times> 'st) \<Rightarrow> (int \<times> block) list \<Rightarrow> int list \<Rightarrow> 'st
     \<Rightarrow> failure + string list \<times> 'st" where
  "block_strings pr bm [] st = Inr ([], st)"
| "block_strings pr bm (blk # rest) st =
     (case map_of bm blk of
        None \<Rightarrow> Inl UndefinedBehaviour
      | Some toConvert \<Rightarrow>
          (case pr st toConvert of
             (blockStr, st1) \<Rightarrow>
               (case block_strings pr bm rest st1 of
                  Inl e \<Rightarrow> Inl e
                | Inr (strs, st2) \<Rightarrow> Inr (blockStr # strs, st2))))"

text \<open>
  The loop over the kernels of the JSON object (name and id list, in the order of the
  object), with \<^verbatim>\<open>std::hash<string>\<close> as the parameter \<open>hasher\<close>. The state is the
  names state and \<^verbatim>\<open>outputMap\<close>.
\<close>

fun hash_kernels ::
  "('st \<Rightarrow> block \<Rightarrow> string \<times> 'st) \<Rightarrow> (string \<Rightarrow> 64 word) \<Rightarrow> (int \<times> block) list
     \<Rightarrow> (string \<times> int list) list \<Rightarrow> 'st \<times> (string \<times> 64 word) list
     \<Rightarrow> failure + 'st \<times> (string \<times> 64 word) list" where
  "hash_kernels pr hasher bm [] acc = Inr acc"
| "hash_kernels pr hasher bm ((key, value) # rest) (st, outputMap) =
     (let blocks = sort value
      in case block_strings pr bm blocks st of
           Inl e \<Rightarrow> Inl e
         | Inr (blockStrings, st1) \<Rightarrow>
             (let sorted = std_sort 0 0 blockStrings;
                  toHash = concat (map (\<lambda>str. str @ ''\<newline>'') sorted)
              in hash_kernels pr hasher bm rest (st1, map_put key (hasher toHash) outputMap)))"

definition KernelHasher ::
  "('st \<Rightarrow> block \<Rightarrow> string \<times> 'st) \<Rightarrow> (string \<Rightarrow> 64 word) \<Rightarrow> block list list
     \<Rightarrow> (string \<times> int list) list \<Rightarrow> 'st \<Rightarrow> failure + (string \<times> 64 word) list" where
  "KernelHasher pr hasher M j st =
     (case hash_kernels pr hasher (blockMap M) j (st, []) of
        Inl e \<Rightarrow> Inl e
      | Inr (st', outputMap) \<Rightarrow> Inr outputMap)"

text \<open>
  The block selection of the main tool (the first loop of \<^verbatim>\<open>Kernel::Kernel\<close>): the
  blocks of the module whose \<^verbatim>\<open>GetBlockID\<close>, the value of the BlockID metadata tag
  or -1 for a block without the tag, is in the id list.
\<close>

definition kernel_blocks :: "(block \<Rightarrow> int) \<Rightarrow> block list list \<Rightarrow> int list \<Rightarrow> block list" where
  "kernel_blocks GetBlockID M basicBlocks =
     fold (\<lambda>b blocks.
             if GetBlockID b \<noteq> - 1
             then (if GetBlockID b \<in> set basicBlocks then set_insert b blocks else blocks)
             else blocks)
       (concat M) []"

text \<open>The texts of a list of blocks printed one after the other.\<close>

fun print_seq :: "('st \<Rightarrow> block \<Rightarrow> string \<times> 'st) \<Rightarrow> block list \<Rightarrow> 'st \<Rightarrow> string list \<times> 'st" where
  "print_seq pr [] st = ([], st)"
| "print_seq pr (b # bs) st =
     (case pr st b of (str, st1) \<Rightarrow>
        (case print_seq pr bs st1 of (strs, st2) \<Rightarrow> (str # strs, st2)))"

text \<open>A module of two functions with the blocks 10, 11 and 12, and a printer that gives
  them the texts A, BB and CCC and keeps no state.\<close>

definition sample_module :: "block list list" where
  "sample_module = [[10, 11], [12]]"

definition sample_printer :: "unit \<Rightarrow> block \<Rightarrow> string \<times> unit" where
  "sample_printer st b =
     ((if b = 10 then ''A'' else if b = 11 then ''BB'' else ''CCC'') @ ''\<newline>'', st)"

section \<open>Theorems\<close>

text \<open>
  C2. Exit analysis is claimed to give every block of the set that has a successor
  outside the set an entry in \<^verbatim>\<open>ExitMap\<close>, also when two blocks exit to the same
  outside block. On the set {1, 2} with both blocks branching to 3, the analysis
  succeeds, gives exit id 0 the target 3 and block 1 the id 0, and leaves block 2, which
  has the outside successor 3, without an entry.
\<close>

theorem GetExits_shared_exit_second_block_unmapped:
  "GetExits shared_exit_ir [1, 2] new_kernel =
     Inr (new_kernel\<lparr>ExitTarget := [(0, 3)], ExitMap := [(1, 0)]\<rparr>)
   \<and> map_of [(1, 0::nat)] (2::nat) = None
   \<and> 3 \<in> set (successors (graph shared_exit_ir) 2) \<and> 3 \<notin> set [1, 2::nat]"
  by (simp add: GetExits_def exit_block_def exit_target_def successors_def
      shared_exit_ir_def new_kernel_def)

text \<open>
  C4. The intermediate call-and-switch block made for an entrance of a nested kernel is
  claimed to be a member of the partition set of the entrance. For the parent kernel
  over {10, 20} whose block 10, in Body, is the entrance of a nested kernel, BuildKernel
  succeeds and registers the intermediate block 100 as \<^verbatim>\<open>VMap[10]\<close>, but 100 is in
  neither Body nor Termination: Body still holds the original block 10, while the clone
  101 of the ordinary block 20 has replaced it in Termination.
\<close>

theorem BuildKernel_intermediate_block_in_no_partition:
  "BuildKernel nest_env [10, 20] 100 parent_kernel =
     Inr (102, parent_kernel\<lparr>VMap := [10 \<mapsto> 100, 20 \<mapsto> 101],
            Body := {10}, Termination := {101}\<rparr>)
   \<and> 100 \<notin> ({10} :: block set) \<and> 100 \<notin> ({101} :: block set)"
  by (simp add: BuildKernel_def build_block_def nested_entrance_def nested_exit_def
      clone_block_def nest_env_def parent_kernel_def child_kernel_def new_kernel_def
      map_erase_def)

text \<open>
  C1. The phi of a formal argument is claimed to carry, for every call-site predecessor,
  the actual argument of that call site. For the callee with the call sites (block 10,
  actual 100) and (block 20, actual 200), the inliner makes one struct whose argument phi
  has the incoming value 100 for both predecessors: the actual argument 200 of the second
  call site is not an incoming value, and the second call is only redirected.
\<close>

theorem InlineFunctions_arg_phi_repeats_first_actual:
  "InlineFunctions two_sites [site1, site2] 50 new_kernel =
     Inr (52,
          [\<lparr>CalledFunction = 7, entranceBlock = 50, branchPhi = [(0, 10), (1, 20)],
            ArgNodes = [[(100, 10), (100, 20)]]\<rparr>],
          new_kernel\<lparr>Body := {51, 50}\<rparr>, [(10, 50), (20, 50)])
   \<and> getOperand site2 0 = Inr 200"
  by (simp add: InlineFunctions_def inline_call_def new_inline_def collect_use_def
      redirect_def getOperand_def two_sites_def site1_def site2_def new_kernel_def)

subsection \<open>The memory selectors\<close>

lemma map_of_map_put: "map_of (map_put k v ps) = (map_of ps)(k \<mapsto> v)"
  by (induction k v ps rule: map_put.induct) auto

lemma set_set_insert: "set (set_insert x xs) = insert x (set xs)"
  by (induction xs) auto

lemma set_fold_load_pointer:
  "set (fold load_pointer xs acc) = set acc \<union> {p. LoadInst p \<in> set xs}"
proof (induction xs arbitrary: acc)
  case Nil
  then show ?case by simp
next
  case (Cons x xs)
  then show ?case by (cases x) (auto simp: set_set_insert)
qed

lemma set_fold_store_pointer:
  "set (fold store_pointer xs acc) = set acc \<union> {p. \<exists>v. StoreInst v p \<in> set xs}"
proof (induction xs arbitrary: acc)
  case Nil
  then show ?case by simp
next
  case (Cons x xs)
  then show ?case by (cases x) (auto simp: set_set_insert)
qed

lemma exec_regs_append:
  "exec_regs mem arg regs (xs @ ys) =
     (case exec_regs mem arg regs xs of None \<Rightarrow> None | Some r \<Rightarrow> exec_regs mem arg r ys)"
  by (induction xs arbitrary: regs) (auto split: option.splits)

lemma exec_block_append_ret:
  "exec_regs mem arg regs body = Some regs' \<Longrightarrow>
   exec_block mem arg regs (body @ [Ret a]) =
     (case operand_value arg regs' a of Some (IntVal v) \<Rightarrow> Some v | _ \<Rightarrow> None)"
proof (induction body arbitrary: regs)
  case Nil
  then show ?case by simp
next
  case (Cons inst body)
  then show ?case by (cases inst) (auto split: option.splits)
qed

lemma emit_select_first:
  "sel_inv mem arg g (emit_select g (0, [], None))"
  by (simp add: emit_select_def sel_inv_def)

lemma emit_select_next:
  assumes "sel_inv mem arg g0 sel"
  shows "sel_inv mem arg g0 (emit_select g sel)"
proof -
  obtain i body priorValue where sel: "sel = (i, body, priorValue)" by (cases sel) auto
  from assms have i: "1 \<le> i" and tk: "take 2 body = [Load g0, PtrToInt (Reg 0)]"
    by (simp_all add: sel sel_inv_def)
  from assms have "\<exists>regs p v. exec_regs mem arg [] body = Some regs \<and> length regs = length body
           \<and> priorValue = Some (Reg p) \<and> p < length regs \<and> regs ! p = IntVal v
           \<and> ((\<forall>j. 1 \<le> j \<and> j < i \<longrightarrow> arg \<noteq> of_nat j) \<longrightarrow> v = mem g0)"
    by (simp add: sel sel_inv_def)
  then obtain regs p v where
    ex: "exec_regs mem arg [] body = Some regs" and len: "length regs = length body" and
    pr: "priorValue = Some (Reg p)" and p: "p < length regs" and rp: "regs ! p = IntVal v" and
    v: "(\<forall>j. 1 \<le> j \<and> j < i \<longrightarrow> arg \<noteq> of_nat j) \<longrightarrow> v = mem g0"
    by blast
  let ?new = "[Load g, PtrToInt (Reg (length body)), ICmpEQ ArgOp (ConstInt (of_nat i)),
               Select (Reg (Suc (Suc (length body)))) (Reg (Suc (length body))) (Reg p)]"
  let ?v' = "if arg = of_nat i then mem g else v"
  let ?regs' = "regs @ [PtrVal (mem g), IntVal (mem g), BoolVal (arg = of_nat i), IntVal ?v']"
  have e: "emit_select g sel = (i + 1, body @ ?new, Some (Reg (length body + 3)))"
    by (simp add: emit_select_def sel pr)
  have r: "exec_regs mem arg regs ?new = Some ?regs'"
    using p rp len by (simp add: nth_append)
  have ex': "exec_regs mem arg [] (body @ ?new) = Some ?regs'"
    by (simp only: exec_regs_append ex option.case r)
  have tk': "take 2 (body @ ?new) = [Load g0, PtrToInt (Reg 0)]"
  proof -
    from tk have "2 \<le> length body" by (cases body; cases "tl body") auto
    then show ?thesis using tk by simp
  qed
  have v': "(\<forall>j. 1 \<le> j \<and> j < i + 1 \<longrightarrow> arg \<noteq> of_nat j) \<longrightarrow> ?v' = mem g0"
    using v i by auto
  have "?regs' ! (length body + 3) = IntVal ?v'"
    using len by (simp add: nth_append)
  with ex' tk' v' i len show ?thesis
    unfolding e sel_inv_def by (auto simp del: exec_regs.simps)
qed

lemma fst_emit_select: "fst (emit_select g sel) = fst sel + 1"
  by (cases sel) (auto simp: emit_select_def Let_def split: option.splits)

lemma read_step_shape:
  "\<exists>g nxt' k'. read_step v (sel, lm, nxt, k) =
      (emit_select g sel, map_put v (of_nat (fst sel)) lm, nxt', k')
    \<and> LoadMap k' = map_put (fst sel) g (LoadMap k) \<and> StoreMap k' = StoreMap k"
  by (auto simp: read_step_def promote_def split: option.splits)

lemma write_step_shape:
  "\<exists>g nxt' k'. write_step v (sel, sm, nxt, k) =
      (emit_select g sel, map_put v (of_nat (fst sel)) sm, nxt', k')
    \<and> StoreMap k' = map_put (fst sel) g (StoreMap k) \<and> LoadMap k' = LoadMap k"
  by (auto simp: write_step_def promote_def split: option.splits)

lemma fold_read_step_inv:
  assumes "sel_inv mem arg g0 sel" and "map_of (LoadMap k) 0 = Some g0"
    and "fold read_step vs (sel, lm, nxt, k) = (sel', lm', nxt', k')"
  shows "sel_inv mem arg g0 sel' \<and> fst sel' = fst sel + length vs
    \<and> map_of (LoadMap k') 0 = Some g0 \<and> StoreMap k' = StoreMap k
    \<and> (\<forall>p. p \<in> set vs \<or> map_of lm p \<noteq> None \<longrightarrow> map_of lm' p \<noteq> None)"
  using assms
proof (induction vs arbitrary: sel lm nxt k)
  case Nil
  then show ?case by simp
next
  case (Cons v vs)
  obtain g nxt1 k1 where
    st: "read_step v (sel, lm, nxt, k) =
           (emit_select g sel, map_put v (of_nat (fst sel)) lm, nxt1, k1)"
    and lmap: "LoadMap k1 = map_put (fst sel) g (LoadMap k)" and smap: "StoreMap k1 = StoreMap k"
    using read_step_shape by blast
  from Cons.prems(1) have "1 \<le> fst sel" by (cases sel) (simp add: sel_inv_def)
  with lmap Cons.prems(2) have l0: "map_of (LoadMap k1) 0 = Some g0"
    by (simp add: map_of_map_put)
  have inv: "sel_inv mem arg g0 (emit_select g sel)"
    using Cons.prems(1) by (rule emit_select_next)
  from Cons.prems(3) st have
    "fold read_step vs (emit_select g sel, map_put v (of_nat (fst sel)) lm, nxt1, k1)
       = (sel', lm', nxt', k')" by simp
  from Cons.IH [OF inv l0 this] show ?case
    by (auto simp: fst_emit_select smap map_of_map_put)
qed

lemma fold_write_step_inv:
  assumes "sel_inv mem arg g0 sel" and "map_of (StoreMap k) 0 = Some g0"
    and "fold write_step vs (sel, sm, nxt, k) = (sel', sm', nxt', k')"
  shows "sel_inv mem arg g0 sel' \<and> fst sel' = fst sel + length vs
    \<and> map_of (StoreMap k') 0 = Some g0 \<and> LoadMap k' = LoadMap k
    \<and> (\<forall>p. p \<in> set vs \<or> map_of sm p \<noteq> None \<longrightarrow> map_of sm' p \<noteq> None)"
  using assms
proof (induction vs arbitrary: sel sm nxt k)
  case Nil
  then show ?case by simp
next
  case (Cons v vs)
  obtain g nxt1 k1 where
    st: "write_step v (sel, sm, nxt, k) =
           (emit_select g sel, map_put v (of_nat (fst sel)) sm, nxt1, k1)"
    and smap: "StoreMap k1 = map_put (fst sel) g (StoreMap k)" and lmap: "LoadMap k1 = LoadMap k"
    using write_step_shape by blast
  from Cons.prems(1) have "1 \<le> fst sel" by (cases sel) (simp add: sel_inv_def)
  with smap Cons.prems(2) have l0: "map_of (StoreMap k1) 0 = Some g0"
    by (simp add: map_of_map_put)
  have inv: "sel_inv mem arg g0 (emit_select g sel)"
    using Cons.prems(1) by (rule emit_select_next)
  from Cons.prems(3) st have
    "fold write_step vs (emit_select g sel, map_put v (of_nat (fst sel)) sm, nxt1, k1)
       = (sel', sm', nxt', k')" by simp
  from Cons.IH [OF inv l0 this] show ?case
    by (auto simp: fst_emit_select lmap map_of_map_put)
qed

lemma read_loop_result:
  assumes "vs \<noteq> []"
    and "fold read_step vs ((0, [], None), [], nxt, k) = (sel', lm', nxt', k')"
  shows "\<exists>g0. sel_inv mem arg g0 sel' \<and> fst sel' = length vs
    \<and> map_of (LoadMap k') 0 = Some g0 \<and> StoreMap k' = StoreMap k
    \<and> (\<forall>p \<in> set vs. map_of lm' p \<noteq> None)"
proof -
  from assms(1) obtain v ws where vs: "vs = v # ws" by (cases vs) auto
  let ?s0 = "(0, [], None) :: selector"
  obtain g nxt1 k1 where
    st: "read_step v (?s0, [], nxt, k) =
           (emit_select g ?s0, map_put v (of_nat (fst ?s0)) [], nxt1, k1)"
    and lmap: "LoadMap k1 = map_put (fst ?s0) g (LoadMap k)"
    and smap: "StoreMap k1 = StoreMap k"
    using read_step_shape [of v ?s0 "[]" nxt k] by blast
  have l0: "map_of (LoadMap k1) 0 = Some g" using lmap by (simp add: map_of_map_put)
  from assms(2) st have f:
    "fold read_step ws (emit_select g ?s0, map_put v (of_nat (fst ?s0)) [], nxt1, k1)
       = (sel', lm', nxt', k')" by (simp add: vs)
  from fold_read_step_inv [OF emit_select_first l0 f, of mem arg] show ?thesis
    by (auto simp: vs fst_emit_select smap map_of_map_put intro!: exI [of _ g])
qed

lemma write_loop_result:
  assumes "vs \<noteq> []"
    and "fold write_step vs ((0, [], None), [], nxt, k) = (sel', sm', nxt', k')"
  shows "\<exists>g0. sel_inv mem arg g0 sel' \<and> fst sel' = length vs
    \<and> map_of (StoreMap k') 0 = Some g0 \<and> LoadMap k' = LoadMap k
    \<and> (\<forall>p \<in> set vs. map_of sm' p \<noteq> None)"
proof -
  from assms(1) obtain v ws where vs: "vs = v # ws" by (cases vs) auto
  let ?s0 = "(0, [], None) :: selector"
  obtain g nxt1 k1 where
    st: "write_step v (?s0, [], nxt, k) =
           (emit_select g ?s0, map_put v (of_nat (fst ?s0)) [], nxt1, k1)"
    and smap: "StoreMap k1 = map_put (fst ?s0) g (StoreMap k)"
    and lmap: "LoadMap k1 = LoadMap k"
    using write_step_shape [of v ?s0 "[]" nxt k] by blast
  have l0: "map_of (StoreMap k1) 0 = Some g" using smap by (simp add: map_of_map_put)
  from assms(2) st have f:
    "fold write_step ws (emit_select g ?s0, map_put v (of_nat (fst ?s0)) [], nxt1, k1)
       = (sel', sm', nxt', k')" by (simp add: vs)
  from fold_write_step_inv [OF emit_select_first l0 f, of mem arg] show ?thesis
    by (auto simp: vs fst_emit_select lmap map_of_map_put intro!: exI [of _ g])
qed

lemma close_selector_exec:
  assumes "sel_inv mem arg g0 sel"
    and "\<forall>j. 1 \<le> j \<and> j < fst sel \<longrightarrow> arg \<noteq> of_nat j"
  shows "exec_block mem arg [] (snd (close_selector w sel)) = Some (mem g0)
    \<and> take 2 (snd (close_selector w sel)) = [Load g0, PtrToInt (Reg 0)]
    \<and> fst (close_selector w sel) = []"
proof -
  obtain i body priorValue where sel: "sel = (i, body, priorValue)" by (cases sel) auto
  from assms(1) have tk: "take 2 body = [Load g0, PtrToInt (Reg 0)]"
    by (simp add: sel sel_inv_def)
  from assms(1) have "\<exists>regs p v. exec_regs mem arg [] body = Some regs \<and> length regs = length body
           \<and> priorValue = Some (Reg p) \<and> p < length regs \<and> regs ! p = IntVal v
           \<and> ((\<forall>j. 1 \<le> j \<and> j < i \<longrightarrow> arg \<noteq> of_nat j) \<longrightarrow> v = mem g0)"
    by (simp add: sel sel_inv_def)
  then obtain regs p v where
    ex: "exec_regs mem arg [] body = Some regs" and
    pr: "priorValue = Some (Reg p)" and p: "p < length regs" and rp: "regs ! p = IntVal v" and
    v: "(\<forall>j. 1 \<le> j \<and> j < i \<longrightarrow> arg \<noteq> of_nat j) \<longrightarrow> v = mem g0"
    by blast
  from v assms(2) have v0: "v = mem g0" by (simp add: sel)
  have c: "close_selector w sel = ([], body @ [Ret (Reg p)])"
    by (simp add: close_selector_def sel pr)
  from tk have "2 \<le> length body" by (cases body; cases "tl body") auto
  with tk have tk': "take 2 (body @ [Ret (Reg p)]) = [Load g0, PtrToInt (Reg 0)]" by simp
  have "exec_block mem arg [] (body @ [Ret (Reg p)]) = Some (mem g0)"
    using exec_block_append_ret [OF ex, of "Reg p"] p rp v0 by simp
  with tk' c show ?thesis by simp
qed

lemma rewrite_ok:
  assumes "\<forall>p. LoadInst p \<in> set xs \<longrightarrow> map_of lm p \<noteq> None"
    and "\<forall>v p. StoreInst v p \<in> set xs \<longrightarrow> map_of sm p \<noteq> None"
  shows "fold_err (rewrite_inst lm sm) xs () = Inr ()"
  using assms
proof (induction xs)
  case Nil
  then show ?case by simp
next
  case (Cons x xs)
  then show ?case by (cases x) (auto simp: rewrite_inst_def split: option.splits)
qed

lemma read_loop_keys:
  "fold read_step vs (sel, lm, nxt, k) = (sel', lm', nxt', k') \<Longrightarrow>
   (\<forall>p. p \<in> set vs \<or> map_of lm p \<noteq> None \<longrightarrow> map_of lm' p \<noteq> None)"
proof (induction vs arbitrary: sel lm nxt k)
  case Nil
  then show ?case by simp
next
  case (Cons v vs)
  obtain g nxt1 k1 where
    st: "read_step v (sel, lm, nxt, k) =
           (emit_select g sel, map_put v (of_nat (fst sel)) lm, nxt1, k1)"
    using read_step_shape by blast
  from Cons.prems st have
    "fold read_step vs (emit_select g sel, map_put v (of_nat (fst sel)) lm, nxt1, k1)
       = (sel', lm', nxt', k')" by simp
  from Cons.IH [OF this] show ?case by (auto simp: map_of_map_put)
qed

lemma write_loop_keys:
  "fold write_step vs (sel, sm, nxt, k) = (sel', sm', nxt', k') \<Longrightarrow>
   (\<forall>p. p \<in> set vs \<or> map_of sm p \<noteq> None \<longrightarrow> map_of sm' p \<noteq> None)"
proof (induction vs arbitrary: sel sm nxt k)
  case Nil
  then show ?case by simp
next
  case (Cons v vs)
  obtain g nxt1 k1 where
    st: "write_step v (sel, sm, nxt, k) =
           (emit_select g sel, map_put v (of_nat (fst sel)) sm, nxt1, k1)"
    using write_step_shape by blast
  from Cons.prems st have
    "fold write_step vs (emit_select g sel, map_put v (of_nat (fst sel)) sm, nxt1, k1)
       = (sel', sm', nxt', k')" by simp
  from Cons.IH [OF this] show ?case by (auto simp: map_of_map_put)
qed

text \<open>The phase as the composition of its loops, with the lookups of the last loop
  known to succeed.\<close>

lemma GetMemoryFunctions_unfold:
  assumes r: "fold read_step (loadValues kf) ((0, [], None), [], nxt + 2, k) = (rsel, lm, nxt1, k1)"
    and w: "fold write_step (storeValues kf) ((0, [], None), [], nxt1, k1) = (wsel, sm, nxt2, k2)"
  shows "GetMemoryFunctions kf nxt k =
     Inr (fst (close_selector ''Empty kernel read encountered'' rsel)
            @ fst (close_selector ''Empty kernel write encountered'' wsel), nxt2,
          k2\<lparr>MemoryRead := Some \<lparr>mf_handle = nxt,
               entry = snd (close_selector ''Empty kernel read encountered'' rsel)\<rparr>,
             MemoryWrite := Some \<lparr>mf_handle = nxt + 1,
               entry = snd (close_selector ''Empty kernel write encountered'' wsel)\<rparr>\<rparr>)"
proof -
  have a: "\<forall>p. LoadInst p \<in> set (concat kf) \<longrightarrow> map_of lm p \<noteq> None"
    using read_loop_keys [OF r] set_fold_load_pointer [of "concat kf" "[]"]
    unfolding loadValues_def by auto
  have b: "\<forall>v p. StoreInst v p \<in> set (concat kf) \<longrightarrow> map_of sm p \<noteq> None"
    using write_loop_keys [OF w] set_fold_store_pointer [of "concat kf" "[]"]
    unfolding storeValues_def by auto
  show ?thesis
    unfolding GetMemoryFunctions_def r
    by (simp add: w rewrite_ok [OF a b] case_prod_beta)
qed

text \<open>
  C8. The phase always completes. If the kernel function has no load instruction, the
  block of \<^verbatim>\<open>MemoryRead\<close> is the single instruction returning the i64 constant 0, so
  the function returns 0 for every argument, and the warning for an empty read is
  logged; the same holds for \<^verbatim>\<open>MemoryWrite\<close> when there is no store instruction.
\<close>

theorem GetMemoryFunctions_empty_selector_returns_zero:
  "\<exists>warns nxt' k' loadBlock storeBlock.
     GetMemoryFunctions kf nxt k = Inr (warns, nxt', k')
     \<and> MemoryRead k' = Some \<lparr>mf_handle = nxt, entry = loadBlock\<rparr>
     \<and> MemoryWrite k' = Some \<lparr>mf_handle = nxt + 1, entry = storeBlock\<rparr>
     \<and> ((\<forall>p. LoadInst p \<notin> set (concat kf)) \<longrightarrow>
          loadBlock = [Ret (ConstInt 0)] \<and> exec_block mem arg [] loadBlock = Some 0
          \<and> ''Empty kernel read encountered'' \<in> set warns)
     \<and> ((\<forall>v p. StoreInst v p \<notin> set (concat kf)) \<longrightarrow>
          storeBlock = [Ret (ConstInt 0)] \<and> exec_block mem arg [] storeBlock = Some 0
          \<and> ''Empty kernel write encountered'' \<in> set warns)"
proof -
  obtain rsel lm nxt1 k1 where
    r: "fold read_step (loadValues kf) ((0, [], None), [], nxt + 2, k) = (rsel, lm, nxt1, k1)"
    using prod_cases4 by blast
  obtain wsel sm nxt2 k2 where
    w: "fold write_step (storeValues kf) ((0, [], None), [], nxt1, k1) = (wsel, sm, nxt2, k2)"
    using prod_cases4 by blast
  note u = GetMemoryFunctions_unfold [OF r w]
  have a: "rsel = (0, [], None)" if "\<forall>p. LoadInst p \<notin> set (concat kf)"
  proof -
    from that have "set (loadValues kf) = {}"
      unfolding loadValues_def set_fold_load_pointer by simp
    then show ?thesis using r by simp
  qed
  have b: "wsel = (0, [], None)" if "\<forall>v p. StoreInst v p \<notin> set (concat kf)"
  proof -
    from that have "set (storeValues kf) = {}"
      unfolding storeValues_def set_fold_store_pointer by simp
    then show ?thesis using w by simp
  qed
  show ?thesis
    unfolding u using a b by (auto simp: close_selector_def)
qed

theorem GetMemoryFunctions_empty_selector_returns_zero_witness:
  "(\<forall>p. LoadInst p \<notin> set (concat [[OtherInst]]))
   \<and> (\<forall>v p. StoreInst v p \<notin> set (concat [[OtherInst]]))
   \<and> (\<exists>warns nxt' k'.
        GetMemoryFunctions [[OtherInst]] 100 new_kernel = Inr (warns, nxt', k')
        \<and> MemoryRead k' = Some \<lparr>mf_handle = 100, entry = [Ret (ConstInt 0)]\<rparr>
        \<and> MemoryWrite k' = Some \<lparr>mf_handle = 101, entry = [Ret (ConstInt 0)]\<rparr>
        \<and> exec_block (\<lambda>g. 0) 7 [] [Ret (ConstInt 0)] = Some 0
        \<and> ''Empty kernel read encountered'' \<in> set warns
        \<and> ''Empty kernel write encountered'' \<in> set warns)"
  using GetMemoryFunctions_empty_selector_returns_zero [of "[[OtherInst]]" 100 new_kernel "\<lambda>g. 0" 7]
  by auto

text \<open>
  C9. If the kernel function has a load, the block of \<^verbatim>\<open>MemoryRead\<close> starts with the
  load and conversion of the global at index 0 of \<^verbatim>\<open>LoadMap\<close>, with no comparison
  before them, and for every argument that is none of the indices 1, ..., n - 1 (n the
  number of pointers) the function returns the converted pointer held by that global:
  index 0 and every out-of-range argument give the same result, and nothing signals an
  error. The same holds for \<^verbatim>\<open>MemoryWrite\<close> and \<^verbatim>\<open>StoreMap\<close>.
\<close>

theorem selector_falls_back_to_index_zero:
  assumes "GetMemoryFunctions kf nxt k = Inr (warns, nxt', k')"
  shows "(LoadInst p \<in> set (concat kf) \<and> arg \<notin> of_nat ` {1 ..< length (loadValues kf)} \<longrightarrow>
            (\<exists>loadBlock g0. map_option entry (MemoryRead k') = Some loadBlock \<and> map_of (LoadMap k') 0 = Some g0
               \<and> take 2 loadBlock = [Load g0, PtrToInt (Reg 0)]
               \<and> exec_block mem arg [] loadBlock = Some (mem g0)))
       \<and> (StoreInst v q \<in> set (concat kf) \<and> arg \<notin> of_nat ` {1 ..< length (storeValues kf)} \<longrightarrow>
            (\<exists>storeBlock g0. map_option entry (MemoryWrite k') = Some storeBlock \<and> map_of (StoreMap k') 0 = Some g0
               \<and> take 2 storeBlock = [Load g0, PtrToInt (Reg 0)]
               \<and> exec_block mem arg [] storeBlock = Some (mem g0)))"
proof -
  obtain rsel lm nxt1 k1 where
    r: "fold read_step (loadValues kf) ((0, [], None), [], nxt + 2, k) = (rsel, lm, nxt1, k1)"
    using prod_cases4 by blast
  obtain wsel sm nxt2 k2 where
    w: "fold write_step (storeValues kf) ((0, [], None), [], nxt1, k1) = (wsel, sm, nxt2, k2)"
    using prod_cases4 by blast
  from assms GetMemoryFunctions_unfold [OF r w] have
    k': "k' = k2\<lparr>MemoryRead := Some \<lparr>mf_handle = nxt,
               entry = snd (close_selector ''Empty kernel read encountered'' rsel)\<rparr>,
             MemoryWrite := Some \<lparr>mf_handle = nxt + 1,
               entry = snd (close_selector ''Empty kernel write encountered'' wsel)\<rparr>\<rparr>"
    by simp
  have rd: "\<exists>loadBlock g0. map_option entry (MemoryRead k') = Some loadBlock \<and> map_of (LoadMap k') 0 = Some g0
               \<and> take 2 loadBlock = [Load g0, PtrToInt (Reg 0)]
               \<and> exec_block mem arg [] loadBlock = Some (mem g0)"
    if l: "LoadInst p \<in> set (concat kf)" and n: "arg \<notin> of_nat ` {1 ..< length (loadValues kf)}"
  proof -
    from l have "p \<in> set (loadValues kf)"
      unfolding loadValues_def set_fold_load_pointer by simp
    then have ne: "loadValues kf \<noteq> []" by auto
    from read_loop_result [OF ne r, of mem arg] obtain g0 where
      inv: "sel_inv mem arg g0 rsel" and i: "fst rsel = length (loadValues kf)"
      and l0: "map_of (LoadMap k1) 0 = Some g0" by blast
    from n i have "\<forall>j. 1 \<le> j \<and> j < fst rsel \<longrightarrow> arg \<noteq> of_nat j" by auto
    note c = close_selector_exec [OF inv this, of "''Empty kernel read encountered''"]
    have "LoadMap k2 = LoadMap k1"
    proof (cases "storeValues kf = []")
      case True
      with w show ?thesis by simp
    next
      case False
      from write_loop_result [OF False w, of mem arg] show ?thesis by blast
    qed
    with l0 c show ?thesis by (simp add: k')
  qed
  have wr: "\<exists>storeBlock g0. map_option entry (MemoryWrite k') = Some storeBlock \<and> map_of (StoreMap k') 0 = Some g0
               \<and> take 2 storeBlock = [Load g0, PtrToInt (Reg 0)]
               \<and> exec_block mem arg [] storeBlock = Some (mem g0)"
    if l: "StoreInst v q \<in> set (concat kf)" and n: "arg \<notin> of_nat ` {1 ..< length (storeValues kf)}"
  proof -
    from l have "q \<in> set (storeValues kf)"
      unfolding storeValues_def set_fold_store_pointer by auto
    then have ne: "storeValues kf \<noteq> []" by auto
    from write_loop_result [OF ne w, of mem arg] obtain g0 where
      inv: "sel_inv mem arg g0 wsel" and i: "fst wsel = length (storeValues kf)"
      and l0: "map_of (StoreMap k2) 0 = Some g0" by blast
    from n i have "\<forall>j. 1 \<le> j \<and> j < fst wsel \<longrightarrow> arg \<noteq> of_nat j" by auto
    note c = close_selector_exec [OF inv this, of "''Empty kernel write encountered''"]
    with l0 show ?thesis by (simp add: k')
  qed
  from rd wr show ?thesis by blast
qed

theorem selector_falls_back_to_index_zero_witness:
  "GetMemoryFunctions sample_kf 100 new_kernel =
     Inr ([], 106,
          new_kernel\<lparr>VMap := [3 \<mapsto> 102, 5 \<mapsto> 103],
            GlobalMap := [(3, 102), (5, 103), (6, 104), (8, 105)],
            LoadMap := [(0, 102), (1, 103)], StoreMap := [(0, 104), (1, 105)],
            MemoryRead := Some \<lparr>mf_handle = 100, entry =
              [Load 102, PtrToInt (Reg 0), Load 103, PtrToInt (Reg 2),
               ICmpEQ ArgOp (ConstInt 1), Select (Reg 4) (Reg 3) (Reg 1), Ret (Reg 5)]\<rparr>,
            MemoryWrite := Some \<lparr>mf_handle = 101, entry =
              [Load 104, PtrToInt (Reg 0), Load 105, PtrToInt (Reg 2),
               ICmpEQ ArgOp (ConstInt 1), Select (Reg 4) (Reg 3) (Reg 1), Ret (Reg 5)]\<rparr>\<rparr>)
   \<and> LoadInst 5 \<in> set (concat sample_kf) \<and> StoreInst 1 6 \<in> set (concat sample_kf)
   \<and> (77 :: 64 word) \<notin> of_nat ` {1 ..< length (loadValues sample_kf)}
   \<and> (77 :: 64 word) \<notin> of_nat ` {1 ..< length (storeValues sample_kf)}
   \<and> exec_block (\<lambda>g. of_nat g * 16) 77
        [] [Load 102, PtrToInt (Reg 0), Load 103, PtrToInt (Reg 2),
            ICmpEQ ArgOp (ConstInt 1), Select (Reg 4) (Reg 3) (Reg 1), Ret (Reg 5)] = Some 1632
   \<and> exec_block (\<lambda>g. of_nat g * 16) 77
        [] [Load 104, PtrToInt (Reg 0), Load 105, PtrToInt (Reg 2),
            ICmpEQ ArgOp (ConstInt 1), Select (Reg 4) (Reg 3) (Reg 1), Ret (Reg 5)] = Some 1664"
proof -
  have g: "GetMemoryFunctions sample_kf 100 new_kernel =
     Inr ([], 106,
          new_kernel\<lparr>VMap := [3 \<mapsto> 102, 5 \<mapsto> 103],
            GlobalMap := [(3, 102), (5, 103), (6, 104), (8, 105)],
            LoadMap := [(0, 102), (1, 103)], StoreMap := [(0, 104), (1, 105)],
            MemoryRead := Some \<lparr>mf_handle = 100, entry =
              [Load 102, PtrToInt (Reg 0), Load 103, PtrToInt (Reg 2),
               ICmpEQ ArgOp (ConstInt 1), Select (Reg 4) (Reg 3) (Reg 1), Ret (Reg 5)]\<rparr>,
            MemoryWrite := Some \<lparr>mf_handle = 101, entry =
              [Load 104, PtrToInt (Reg 0), Load 105, PtrToInt (Reg 2),
               ICmpEQ ArgOp (ConstInt 1), Select (Reg 4) (Reg 3) (Reg 1), Ret (Reg 5)]\<rparr>\<rparr>)"
    by (simp add: GetMemoryFunctions_def sample_kf_def loadValues_def storeValues_def
        read_step_def write_step_def promote_def emit_select_def close_selector_def
        rewrite_inst_def new_kernel_def)
  have l: "LoadInst 5 \<in> set (concat sample_kf)" and s: "StoreInst 1 6 \<in> set (concat sample_kf)"
    by (simp_all add: sample_kf_def)
  have n1: "length (loadValues sample_kf) = 2" and n2: "length (storeValues sample_kf) = 2"
    by (simp_all add: sample_kf_def loadValues_def storeValues_def)
  have iv: "{1 ..< 2 :: nat} = {1}" by auto
  have a1: "(77 :: 64 word) \<notin> of_nat ` {1 ..< length (loadValues sample_kf)}"
    and a2: "(77 :: 64 word) \<notin> of_nat ` {1 ..< length (storeValues sample_kf)}"
    unfolding n1 n2 iv by simp_all
  from selector_falls_back_to_index_zero [OF g, of 5 77 "\<lambda>g. of_nat g * 16" 1 6] l s a1 a2
  show ?thesis using g by simp
qed

subsection \<open>External values and the signature\<close>










subsection \<open>The constructor\<close>

text \<open>
  The claim as stated fails: with the name A reserved, constructing a kernel named A
  does not return an invalid kernel after logging and cleanup; the exception escapes and
  the process-wide state is what it was.
\<close>

theorem Kernel_ctor_duplicate_name_escapes:
  "Kernel_ctor failing_phases ''A'' run_with_A
     = Escaped ''Kernel Error: Kernel names must be unique!'' run_with_A"
  by (simp add: Kernel_ctor_def kernel_name_def run_with_A_def)

lemma Cleanup_detaches:
  "(\<forall>f. KernelFunction k = Some f \<longrightarrow> fn_handle f \<notin> TikModule (Cleanup k gs))
   \<and> (\<forall>m. MemoryRead k = Some m \<longrightarrow> mf_handle m \<notin> TikModule (Cleanup k gs))
   \<and> (\<forall>m. MemoryWrite k = Some m \<longrightarrow> mf_handle m \<notin> TikModule (Cleanup k gs))
   \<and> (\<forall>v g. (v, g) \<in> set (GlobalMap k) \<longrightarrow> g \<notin> TikModule (Cleanup k gs))"
  by (force simp: Cleanup_def)

text \<open>
  C5 (as amended). A name that is already in the reserved-names set makes the
  constructor throw the uniqueness exception before the guarded section: the exception
  leaves the constructor, nothing is logged, nothing is detached and the set is
  unchanged. A failure thrown by a phase of the guarded section is caught in the
  constructor: the constructor returns, \<^verbatim>\<open>Valid\<close> is false, the message is logged as
  an error, and \<^verbatim>\<open>Cleanup\<close> has detached the kernel function, the two selectors
  and the promoted globals from the module.
\<close>

theorem Kernel_ctor_failures:
  assumes "kernel_name name gs = (Name, gs1)"
  shows "(Name \<in> reservedNames gs \<longrightarrow>
            Kernel_ctor guarded name gs
              = Escaped ''Kernel Error: Kernel names must be unique!'' gs1
            \<and> errors gs1 = errors gs \<and> TikModule gs1 = TikModule gs
            \<and> reservedNames gs1 = reservedNames gs)
       \<and> (Name \<notin> reservedNames gs
            \<and> guarded Name new_kernel (gs1\<lparr>reservedNames := insert Name (reservedNames gs1)\<rparr>)
                = (Some what, k, gs2) \<longrightarrow>
            (\<exists>k' gs'. Kernel_ctor guarded name gs = Constructed k' gs'
               \<and> \<not> Valid k' \<and> errors gs' = errors gs2 @ [what]
               \<and> gs' = Cleanup k (gs2\<lparr>errors := errors gs2 @ [what]\<rparr>)
               \<and> (\<forall>f. KernelFunction k = Some f \<longrightarrow> fn_handle f \<notin> TikModule gs')
               \<and> (\<forall>m. MemoryRead k = Some m \<longrightarrow> mf_handle m \<notin> TikModule gs')
               \<and> (\<forall>m. MemoryWrite k = Some m \<longrightarrow> mf_handle m \<notin> TikModule gs')
               \<and> (\<forall>v g. (v, g) \<in> set (GlobalMap k) \<longrightarrow> g \<notin> TikModule gs')))"
proof -
  have r: "reservedNames gs1 = reservedNames gs" "errors gs1 = errors gs"
    "TikModule gs1 = TikModule gs"
    using assms by (auto simp: kernel_name_def split: list.splits if_splits)
  have v: "\<not> Valid new_kernel" by (simp add: new_kernel_def)
  have e: "errors (Cleanup k g) = errors g" for g by (simp add: Cleanup_def)
  show ?thesis
    using r v e Cleanup_detaches [of k] by (simp add: Kernel_ctor_def assms)
qed

theorem Kernel_ctor_failures_witness:
  "kernel_name ''A'' run_with_A = (''A'', run_with_A) \<and> ''A'' \<in> reservedNames run_with_A
   \<and> Kernel_ctor failing_phases ''A'' run_with_A
        = Escaped ''Kernel Error: Kernel names must be unique!'' run_with_A
   \<and> kernel_name ''7B'' run_with_A = (''K7B'', run_with_A) \<and> ''K7B'' \<notin> reservedNames run_with_A
   \<and> (\<exists>k'. Kernel_ctor failing_phases ''7B'' run_with_A
        = Constructed k' \<lparr>reservedNames = {''K7B'', ''A''}, KernelUID = 0, TikModule = {1},
            errors = [''Tik Error: tik found no kernel exits'']\<rparr>
        \<and> \<not> Valid k')"
proof -
  have a: "kernel_name ''A'' run_with_A = (''A'', run_with_A)"
    and b: "kernel_name ''7B'' run_with_A = (''K7B'', run_with_A)"
    by (simp_all add: kernel_name_def)
  have ra: "''A'' \<in> reservedNames run_with_A" and rb: "''K7B'' \<notin> reservedNames run_with_A"
    by (simp_all add: run_with_A_def)
  have p: "failing_phases ''K7B'' new_kernel
             (run_with_A\<lparr>reservedNames := insert ''K7B'' (reservedNames run_with_A)\<rparr>)
           = (Some ''Tik Error: tik found no kernel exits'',
              new_kernel\<lparr>KernelFunction := Some \<lparr>fn_handle = 7, returnType = IntegerTy 8,
                 paramTypes = [IntegerTy 8], args = [8]\<rparr>\<rparr>,
              run_with_A\<lparr>reservedNames := insert ''K7B'' (reservedNames run_with_A),
                 TikModule := insert 7 (TikModule run_with_A)\<rparr>)"
    by (simp add: failing_phases_def)
  from Kernel_ctor_failures [OF a, of failing_phases] ra
  have 1: "Kernel_ctor failing_phases ''A'' run_with_A
        = Escaped ''Kernel Error: Kernel names must be unique!'' run_with_A" by blast
  from Kernel_ctor_failures [OF b, of failing_phases] rb p
  obtain k' gs' where 2: "Kernel_ctor failing_phases ''7B'' run_with_A = Constructed k' gs'"
    "\<not> Valid k'"
    "gs' = Cleanup (new_kernel\<lparr>KernelFunction := Some \<lparr>fn_handle = 7, returnType = IntegerTy 8,
                 paramTypes = [IntegerTy 8], args = [8]\<rparr>\<rparr>)
             (run_with_A\<lparr>reservedNames := insert ''K7B'' (reservedNames run_with_A),
                 TikModule := insert 7 (TikModule run_with_A),
                 errors := errors (run_with_A\<lparr>reservedNames := insert ''K7B'' (reservedNames run_with_A),
                 TikModule := insert 7 (TikModule run_with_A)\<rparr>) @ [''Tik Error: tik found no kernel exits'']\<rparr>)"
    by blast
  have "gs' = \<lparr>reservedNames = {''K7B'', ''A''}, KernelUID = 0, TikModule = {1},
            errors = [''Tik Error: tik found no kernel exits'']\<rparr>"
    unfolding 2(3) by (simp add: Cleanup_def run_with_A_def new_kernel_def)
  with 2(1,2) have 3: "\<exists>k'. Kernel_ctor failing_phases ''7B'' run_with_A
        = Constructed k' \<lparr>reservedNames = {''K7B'', ''A''}, KernelUID = 0, TikModule = {1},
            errors = [''Tik Error: tik found no kernel exits'']\<rparr>
        \<and> \<not> Valid k'" by blast
  show ?thesis by (intro conjI a b ra rb 1 3)
qed

subsection \<open>Conditional classification and the body walk\<close>




















text \<open>
  C3. A successor with both flags is claimed to disqualify the candidate. For the
  candidate 1 with the successors 2 (recurses only), 3 (exits only) and 4 (both flags),
  the ambiguous successor 4 is skipped and the candidate is still classified valid: it is
  in Conditional, and the walk from the seed 2 gives Body = {2}.
\<close>

theorem GetConditional_keeps_condition_with_ambiguous_successor:
  "successors switch_cfg 1 = [2, 3, 4]
   \<and> classify_successor switch_cfg [1, 2, 3, 4] 1 2 = (True, False)
   \<and> classify_successor switch_cfg [1, 2, 3, 4] 1 3 = (False, True)
   \<and> classify_successor switch_cfg [1, 2, 3, 4] 1 4 = (True, True)
   \<and> GetConditional switch_cfg [1, 2, 3, 4] new_kernel
       = new_kernel\<lparr>Conditional := {1}, Body := {2}, Termination := {4, 3, 1}\<rparr>"
  by (simp add: GetConditional_def valid_conditions_def conditions_def record_condition_def
      classify_condition_def classify_step_def classify_successor_def visit_successor_def
      walk_condition_def switch_cfg_def successors_def new_kernel_def)

subsection \<open>The kernel hash utility\<close>

lemma blockMap_lookup:
  assumes "0 \<le> i" and "nat i < length (concat M)"
  shows "map_of (blockMap M) i = Some (concat M ! nat i)"
proof -
  let ?n = "length (concat M)"
  have d: "distinct (map int [0 ..< ?n])" by (simp add: distinct_map)
  have l: "length (map int [0 ..< ?n]) = length (concat M)" by simp
  from map_of_zip_nth [OF l d assms(2)] assms show ?thesis
    by (simp add: blockMap_def)
qed

lemma block_strings_positional:
  assumes "\<forall>i \<in> set ids. 0 \<le> i \<and> nat i < length (concat M)"
  shows "block_strings pr (blockMap M) ids st
      = Inr (print_seq pr (map (\<lambda>i. concat M ! nat i) ids) st)"
  using assms
proof (induction ids arbitrary: st)
  case Nil
  then show ?case by simp
next
  case (Cons i ids)
  then have l: "map_of (blockMap M) i = Some (concat M ! nat i)"
    by (simp add: blockMap_lookup)
  from Cons show ?case by (simp add: l split: prod.splits)
qed

lemma std_sort_empty_range: "std_sort 0 0 xs = xs"
  by (simp add: std_sort_def)

lemma set_kernel_blocks:
  "set (kernel_blocks GetBlockID M basicBlocks)
     = {b \<in> set (concat M). GetBlockID b \<noteq> - 1 \<and> GetBlockID b \<in> set basicBlocks}"
proof -
  let ?f = "\<lambda>b blocks. if GetBlockID b \<noteq> - 1
             then (if GetBlockID b \<in> set basicBlocks then set_insert b blocks else blocks)
             else blocks"
  have "set (fold ?f bs acc)
      = set acc \<union> {b \<in> set bs. GetBlockID b \<noteq> - 1 \<and> GetBlockID b \<in> set basicBlocks}"
    for bs acc
  proof (induction bs arbitrary: acc)
    case Nil
    then show ?case by simp
  next
    case (Cons a bs)
    have "set (?f a acc) = set acc \<union> {b \<in> {a}. GetBlockID b \<noteq> - 1
        \<and> GetBlockID b \<in> set basicBlocks}"
      by (auto simp: set_set_insert)
    with Cons [of "?f a acc"] show ?case by auto
  qed
  from this [of "concat M" "[]"] show ?thesis by (simp add: kernel_blocks_def)
qed

text \<open>
  C10. The kernel-hash utility resolves an id of the kernel JSON to the block at that
  position of the module in function-then-block order; the BlockID tag is no input of it.
  For a kernel whose ids are positions of the module, the hash is the hash of the texts
  of the blocks at the sorted ids, each followed by a newline, concatenated in ascending
  order of the ids: the sort of the string list is over the empty range and changes
  nothing. The blocks it hashes are the blocks the main tool selects by BlockID when
  every block's BlockID is its position; and for a single position k the block hashed
  for k is among the blocks the main tool selects for k exactly when the BlockID of that
  block is k.
\<close>

theorem KernelHasher_resolves_ids_by_position:
  assumes "\<forall>i \<in> set value. 0 \<le> i \<and> nat i < length (concat M)"
  shows "KernelHasher pr hasher M [(key, value)] st
      = Inr [(key, hasher (concat (map (\<lambda>str. str @ ''\<newline>'')
               (fst (print_seq pr (map (\<lambda>i. concat M ! nat i) (sort value)) st)))))]
    \<and> std_sort 0 0 blockStrings = blockStrings
    \<and> ((\<forall>k < length (concat M). GetBlockID (concat M ! k) = int k) \<longrightarrow>
         set (map (\<lambda>i. concat M ! nat i) (sort value)) = set (kernel_blocks GetBlockID M value))
    \<and> (\<forall>k < length (concat M).
         concat M ! k \<in> set (kernel_blocks GetBlockID M [int k])
           \<longleftrightarrow> GetBlockID (concat M ! k) = int k)"
proof -
  from assms have s: "\<forall>i \<in> set (sort value). 0 \<le> i \<and> nat i < length (concat M)" by simp
  have 1: "KernelHasher pr hasher M [(key, value)] st
      = Inr [(key, hasher (concat (map (\<lambda>str. str @ ''\<newline>'')
               (fst (print_seq pr (map (\<lambda>i. concat M ! nat i) (sort value)) st)))))]"
    by (simp add: KernelHasher_def block_strings_positional [OF s] std_sort_empty_range
        split: prod.splits)
  have 3: "set (map (\<lambda>i. concat M ! nat i) (sort value)) = set (kernel_blocks GetBlockID M value)"
    if o: "\<forall>k < length (concat M). GetBlockID (concat M ! k) = int k"
  proof
    show "set (map (\<lambda>i. concat M ! nat i) (sort value)) \<subseteq> set (kernel_blocks GetBlockID M value)"
    proof
      fix b
      assume "b \<in> set (map (\<lambda>i. concat M ! nat i) (sort value))"
      then obtain i where i: "i \<in> set value" and b: "b = concat M ! nat i" by auto
      from assms i have r: "0 \<le> i" "nat i < length (concat M)" by auto
      with o b have "GetBlockID b = i" by simp
      moreover from r b have "b \<in> set (concat M)" by (simp del: set_concat)
      ultimately show "b \<in> set (kernel_blocks GetBlockID M value)"
        using r i unfolding set_kernel_blocks by simp
    qed
    show "set (kernel_blocks GetBlockID M value) \<subseteq> set (map (\<lambda>i. concat M ! nat i) (sort value))"
    proof
      fix b
      assume "b \<in> set (kernel_blocks GetBlockID M value)"
      then have m: "b \<in> set (concat M)" and v: "GetBlockID b \<in> set value"
        unfolding set_kernel_blocks by simp_all
      from m obtain k where k: "k < length (concat M)" and b: "b = concat M ! k"
        using in_set_conv_nth [of b "concat M"] by blast
      with o have "GetBlockID b = int k" by simp
      with v b have "int k \<in> set value" "b = concat M ! nat (int k)" by simp_all
      then show "b \<in> set (map (\<lambda>i. concat M ! nat i) (sort value))" by force
    qed
  qed
  have 4: "\<forall>k < length (concat M).
         concat M ! k \<in> set (kernel_blocks GetBlockID M [int k])
           \<longleftrightarrow> GetBlockID (concat M ! k) = int k"
    unfolding set_kernel_blocks by (auto simp del: set_concat)
  from 1 3 4 show ?thesis by (simp add: std_sort_empty_range)
qed

theorem KernelHasher_resolves_ids_by_position_witness:
  "KernelHasher sample_printer (\<lambda>s. of_nat (length s)) sample_module [(''k'', [2, 0])] ()
      = Inr [(''k'', 8)]
   \<and> fst (print_seq sample_printer (map (\<lambda>i. concat sample_module ! nat i) (sort [2, 0])) ())
      = [''A\<newline>'', ''CCC\<newline>'']
   \<and> set (map (\<lambda>i. concat sample_module ! nat i) (sort [2, 0]))
      = set (kernel_blocks (\<lambda>b. int b - 10) sample_module [2, 0])
   \<and> (concat sample_module ! 1 \<in> set (kernel_blocks (\<lambda>b. int b - 10) sample_module [int 1]))
   \<and> (concat sample_module ! 1 \<notin> set (kernel_blocks (\<lambda>b. int b) sample_module [int 1]))"
proof -
  have r: "\<forall>i \<in> set [2, 0 :: int]. 0 \<le> i \<and> nat i < length (concat sample_module)"
    by (simp add: sample_module_def)
  have p: "fst (print_seq sample_printer (map (\<lambda>i. concat sample_module ! nat i) (sort [2, 0])) ())
      = [''A\<newline>'', ''CCC\<newline>'']"
    by (simp add: sample_module_def sample_printer_def)
  have o: "\<forall>k < length (concat sample_module).
      (\<lambda>b. int b - 10) (concat sample_module ! k) = int k"
    by (simp add: sample_module_def less_Suc_eq numeral_3_eq_3)
  have l: "(1 :: nat) < length (concat sample_module)" by (simp add: sample_module_def)
  note t = KernelHasher_resolves_ids_by_position [OF r, of sample_printer
      "\<lambda>s. of_nat (length s)" "''k''" "()" "[]"]
  from t [of "\<lambda>b. int b - 10", THEN conjunct1] have 1:
    "KernelHasher sample_printer (\<lambda>s. of_nat (length s)) sample_module [(''k'', [2, 0])] ()
      = Inr [(''k'', 8)]"
    unfolding p by simp
  from t [of "\<lambda>b. int b - 10", THEN conjunct2, THEN conjunct2, THEN conjunct1] o have 2:
    "set (map (\<lambda>i. concat sample_module ! nat i) (sort [2, 0]))
      = set (kernel_blocks (\<lambda>b. int b - 10) sample_module [2, 0])"
    by (rule mp)
  note t3 = t [of "\<lambda>b. int b - 10", THEN conjunct2, THEN conjunct2, THEN conjunct2,
      rule_format, OF l]
  note t4 = t [of "\<lambda>b. int b", THEN conjunct2, THEN conjunct2, THEN conjunct2,
      rule_format, OF l]
  have e: "concat sample_module ! 1 = 11" by (simp add: sample_module_def)
  from t3 have 3:
    "concat sample_module ! 1 \<in> set (kernel_blocks (\<lambda>b. int b - 10) sample_module [int 1])"
    unfolding e by simp
  from t4 have 4:
    "concat sample_module ! 1 \<notin> set (kernel_blocks (\<lambda>b. int b) sample_module [int 1])"
    unfolding e by simp
  show ?thesis by (intro conjI 1 p 2 3 4)
qed

end
